theory Spec2Isabelle
  imports Main
begin

section \<open>Game configuration and data (tetris.js, lines 35-115)\<close>

text \<open>
  The numbers of the engine are integers and are modelled as unbounded integers: the
  rounding of doubles beyond \<open>2^53\<close> is not modelled. Rendering, key wiring and the
  interval timer are output and scheduling only and are not part of the model.
\<close>

definition BOARD_WIDTH :: int where
  "BOARD_WIDTH = 10"

definition BOARD_HEIGHT :: int where
  "BOARD_HEIGHT = 20"

text \<open>A piece object: its shape matrix (rows of 0/1 numbers), its colour escape
  sequence and the character used to draw it.\<close>

record piece =
  shape :: "nat list list"
  color :: string
  char :: string

text \<open>The full-block character U+2588 as its three UTF-8 bytes.\<close>

definition block :: string where
  "block = [CHR 0xE2, CHR 0x96, CHR 0x88]"

definition PIECES :: "piece list" where
  "PIECES =
    [\<lparr>shape = [[1, 1, 1, 1]], color = CHR 0x1B # ''[96m'', char = block\<rparr>,
     \<lparr>shape = [[1, 1], [1, 1]], color = CHR 0x1B # ''[93m'', char = block\<rparr>,
     \<lparr>shape = [[0, 1, 0], [1, 1, 1]], color = CHR 0x1B # ''[95m'', char = block\<rparr>,
     \<lparr>shape = [[0, 1, 1], [1, 1, 0]], color = CHR 0x1B # ''[92m'', char = block\<rparr>,
     \<lparr>shape = [[1, 1, 0], [0, 1, 1]], color = CHR 0x1B # ''[91m'', char = block\<rparr>,
     \<lparr>shape = [[1, 0, 0], [1, 1, 1]], color = CHR 0x1B # ''[94m'', char = block\<rparr>,
     \<lparr>shape = [[0, 0, 1], [1, 1, 1]], color = CHR 0x1B # ''[38;5;208m'', char = block\<rparr>]"

text \<open>The only exception the engine code can raise: reading a property of
  \<open>undefined\<close> or \<open>null\<close>.\<close>

datatype error = TypeError

text \<open>A board cell is \<open>null\<close> or a reference to the piece locked there. \<open>Hole\<close> is
  an empty array slot, which JavaScript creates when an assignment writes past the end
  of a row; it reads as \<open>undefined\<close>.\<close>

datatype cell = Null | Hole | Filled piece

type_synonym grid = "cell list list"

text \<open>Truthiness of a cell value: only an object is truthy.\<close>

definition truthy :: "cell \<Rightarrow> bool" where
  "truthy c = (case c of Filled p \<Rightarrow> True | Null \<Rightarrow> False | Hole \<Rightarrow> False)"

text \<open>The truthiness of \<open>board[newY][newX]\<close>. A missing row is \<open>undefined\<close>, and
  indexing it raises; a missing element of an existing row is \<open>undefined\<close>, which is
  falsy.\<close>

definition boardAt :: "grid \<Rightarrow> int \<Rightarrow> int \<Rightarrow> error + bool" where
  "boardAt b newY newX =
     (if 0 \<le> newY \<and> nat newY < length b
      then Inr (let r = b ! nat newY
                in 0 \<le> newX \<and> nat newX < length r \<and> truthy (r ! nat newX))
      else Inl TypeError)"

section \<open>isValidPosition (tetris.js, lines 167-185)\<close>

text \<open>The inner loop over the columns of one shape row, from column \<open>col\<close> on.
  \<open>Inr False\<close> is the early \<open>return false\<close>; \<open>Inr True\<close> means the loop ran to
  its end.\<close>

fun validCols :: "grid \<Rightarrow> int \<Rightarrow> int \<Rightarrow> nat list \<Rightarrow> nat \<Rightarrow> error + bool" where
  "validCols b x newY [] col = Inr True"
| "validCols b x newY (v # vs) col =
     (if v \<noteq> 0 then
        (let newX = x + int col in
         if newX < 0 \<or> newX \<ge> BOARD_WIDTH \<or> newY \<ge> BOARD_HEIGHT then Inr False
         else if newY \<ge> 0 then
           (case boardAt b newY newX of
              Inl e \<Rightarrow> Inl e
            | Inr occ \<Rightarrow> if occ then Inr False else validCols b x newY vs (Suc col))
         else validCols b x newY vs (Suc col))
      else validCols b x newY vs (Suc col))"

text \<open>The outer loop over the shape rows, from row \<open>row\<close> on.\<close>

fun validRows :: "grid \<Rightarrow> int \<Rightarrow> int \<Rightarrow> nat list list \<Rightarrow> nat \<Rightarrow> error + bool" where
  "validRows b x y [] row = Inr True"
| "validRows b x y (r # rs) row =
     (case validCols b x (y + int row) r 0 of
        Inl e \<Rightarrow> Inl e
      | Inr ok \<Rightarrow> if ok then validRows b x y rs (Suc row) else Inr False)"

text \<open>The source reads the global \<open>board\<close>; the model takes it as first argument.\<close>

definition isValidPosition :: "grid \<Rightarrow> nat list list \<Rightarrow> int \<Rightarrow> int \<Rightarrow> error + bool" where
  "isValidPosition b m x y = validRows b x y m 0"

section \<open>Engine state (tetris.js, lines 103-143)\<close>

text \<open>A JavaScript number that may be \<open>NaN\<close>: the score becomes \<open>NaN\<close> when the
  point table is read past its end.\<close>

datatype jsnum = Num int | NaN

text \<open>The module-level variables, and the environment the engine touches: the
  contents of the high-score file (\<open>None\<close> when it does not exist), whether reading
  or writing that file throws, and whether \<open>process.exit\<close> has been called.\<close>

record state =
  board :: grid
  currentPiece :: "piece option"
  currentX :: int
  currentY :: int
  score :: jsnum
  lines :: int
  level :: int
  highScore :: int
  gameRunning :: bool
  gamePaused :: bool
  nextPieceIndex :: int
  highScoreFile :: "string option"
  fsFails :: bool
  exited :: bool

definition initialState :: "string option \<Rightarrow> bool \<Rightarrow> state" where
  "initialState file fails =
     \<lparr>board = [], currentPiece = None, currentX = 0, currentY = 0, score = Num 0,
      lines = 0, level = 1, highScore = 0, gameRunning = False, gamePaused = False,
      nextPieceIndex = - 1, highScoreFile = file, fsFails = fails, exited = False\<rparr>"

definition emptyRow :: "cell list" where
  "emptyRow = replicate (nat BOARD_WIDTH) Null"

definition initBoard :: grid where
  "initBoard = replicate (nat BOARD_HEIGHT) emptyRow"

text \<open>Sequencing of calls that may raise.\<close>

definition thenDo :: "error + 'a \<Rightarrow> ('a \<Rightarrow> error + 'b) \<Rightarrow> error + 'b" where
  "thenDo r f = (case r of Inl e \<Rightarrow> Inl e | Inr v \<Rightarrow> f v)"

section \<open>High score (tetris.js, lines 117-138)\<close>

text \<open>\<open>Number.prototype.toString\<close> on an integer: its decimal digits.\<close>

fun digits :: "nat \<Rightarrow> string" where
  "digits n =
     (if n < 10 then [''0123456789'' ! n]
      else digits (n div 10) @ [''0123456789'' ! (n mod 10)])"

declare digits.simps [simp del]

definition toString :: "jsnum \<Rightarrow> string" where
  "toString v =
     (case v of
        NaN \<Rightarrow> ''NaN''
      | Num n \<Rightarrow> if n < 0 then CHR ''-'' # digits (nat (- n)) else digits (nat n))"

text \<open>\<open>parseInt\<close> with no radix, on the bytes of the file: leading white space, an
  optional sign, an optional \<open>0x\<close> prefix, and the longest run of digits of the radix.
  \<open>None\<close> is \<open>NaN\<close>. Only the ASCII white space characters are skipped; the file the
  engine writes holds decimal digits only.\<close>

definition isWhite :: "char \<Rightarrow> bool" where
  "isWhite c = (c \<in> set [CHR 0x09, CHR 0x0A, CHR 0x0B, CHR 0x0C, CHR 0x0D, CHR 0x20])"

definition digitOf :: "char \<Rightarrow> nat option" where
  "digitOf c =
     (let n = (of_char c :: nat)
      in if 48 \<le> n \<and> n \<le> 57 then Some (n - 48)
         else if 97 \<le> n \<and> n \<le> 102 then Some (n - 87)
         else if 65 \<le> n \<and> n \<le> 70 then Some (n - 55)
         else None)"

definition parseInt :: "string \<Rightarrow> int option" where
  "parseInt data =
     (let t = dropWhile isWhite data;
          neg = (t \<noteq> [] \<and> hd t = CHR ''-'');
          u = (if t \<noteq> [] \<and> (hd t = CHR ''-'' \<or> hd t = CHR ''+'') then tl t else t);
          hex = (take 2 u = ''0x'' \<or> take 2 u = ''0X'');
          radix = (if hex then 16 else 10);
          w = (if hex then drop 2 u else u);
          ds = takeWhile (\<lambda>c. case digitOf c of None \<Rightarrow> False | Some d \<Rightarrow> d < radix) w
      in if ds = [] then None
         else Some ((if neg then - 1 else 1) *
                    int (foldl (\<lambda>a c. a * radix + the (digitOf c)) 0 ds)))"

text \<open>\<open>highScore = parseInt(data) || 0\<close>; a read that throws sets 0; a missing file
  leaves the variable as it is.\<close>

definition loadHighScore :: "state \<Rightarrow> state" where
  "loadHighScore s =
     (case highScoreFile s of
        None \<Rightarrow> s
      | Some data \<Rightarrow>
          if fsFails s then s\<lparr>highScore := 0\<rparr>
          else s\<lparr>highScore :=
                   (case parseInt data of None \<Rightarrow> 0 | Some n \<Rightarrow> if n = 0 then 0 else n)\<rparr>)"

text \<open>\<open>score > highScore\<close>; a comparison with \<open>NaN\<close> is false.\<close>

definition exceeds :: "jsnum \<Rightarrow> int \<Rightarrow> bool" where
  "exceeds v h = (case v of NaN \<Rightarrow> False | Num n \<Rightarrow> h < n)"

definition saveHighScore :: "state \<Rightarrow> state" where
  "saveHighScore s =
     (if exceeds (score s) (highScore s)
      then (if fsFails s then s else s\<lparr>highScoreFile := Some (toString (score s))\<rparr>)
      else s)"

section \<open>Game over and spawnPiece (tetris.js, lines 146-164, 396-414)\<close>

definition gameOver :: "state \<Rightarrow> state" where
  "gameOver s = saveHighScore (s\<lparr>gameRunning := False\<rparr>)"

text \<open>\<open>r0\<close> and \<open>r1\<close> are the values of the two occurrences of
  \<open>Math.floor(Math.random() * PIECES.length)\<close>; the first is drawn only when
  \<open>nextPieceIndex\<close> is \<open>-1\<close>.\<close>

definition spawnPiece :: "nat \<Rightarrow> nat \<Rightarrow> state \<Rightarrow> error + (bool \<times> state)" where
  "spawnPiece r0 r1 s =
     (let pieceIndex = (if nextPieceIndex s = - 1 then int r0 else nextPieceIndex s)
      in if 0 \<le> pieceIndex \<and> nat pieceIndex < length PIECES then
           (let p = PIECES ! nat pieceIndex
            in case shape p of
                 [] \<Rightarrow> Inl TypeError
               | r # rs \<Rightarrow>
                   (let s1 = s\<lparr>nextPieceIndex := int r1, currentPiece := Some p,
                               currentX := (BOARD_WIDTH - int (length r)) div 2,
                               currentY := 0\<rparr>
                    in case isValidPosition (board s1) (shape p) (currentX s1) (currentY s1) of
                         Inl e \<Rightarrow> Inl e
                       | Inr ok \<Rightarrow> if ok then Inr (True, s1) else Inr (False, gameOver s1)))
         else Inl TypeError)"

section \<open>rotatePiece (tetris.js, lines 188-209)\<close>

text \<open>\<open>shape[row][col]\<close> as the rotation loop reads it. The loop bounds every column
  by the length of row 0, so on a ragged matrix the read can fall outside a shorter
  row and give \<open>undefined\<close>; cells are only ever tested for truthiness, and the model
  writes the falsy 0 for it.\<close>

definition shapeAt :: "nat list list \<Rightarrow> nat \<Rightarrow> nat \<Rightarrow> nat" where
  "shapeAt m row col = (if col < length (m ! row) then m ! row ! col else 0)"

text \<open>The two nested loops that fill \<open>rotated\<close>, which starts as \<open>cols\<close> rows of
  \<open>rows\<close> zeros. Every write is inside the array.\<close>

definition rotateLoop :: "nat list list \<Rightarrow> nat \<Rightarrow> nat \<Rightarrow> nat list list" where
  "rotateLoop m rows cols =
     fold (\<lambda>row rotated.
             fold (\<lambda>col rotated.
                     rotated[col := (rotated ! col)[rows - 1 - row := shapeAt m row col]])
                  [0..<cols] rotated)
          [0..<rows] (replicate cols (replicate rows 0))"

text \<open>The rotated matrix; \<open>shape[0].length\<close> raises on a matrix with no rows.\<close>

definition rotated :: "nat list list \<Rightarrow> error + nat list list" where
  "rotated m =
     (case m of
        [] \<Rightarrow> Inl TypeError
      | r # rs \<Rightarrow> Inr (rotateLoop m (length m) (length r)))"

definition kicks :: "int list" where
  "kicks = [0, - 1, 1, - 2, 2]"

text \<open>The loop over the kicks; the first valid one is committed.\<close>

fun tryKicks :: "state \<Rightarrow> piece \<Rightarrow> nat list list \<Rightarrow> int list \<Rightarrow> error + state" where
  "tryKicks s p rot [] = Inr s"
| "tryKicks s p rot (kick # ks) =
     (case isValidPosition (board s) rot (currentX s + kick) (currentY s) of
        Inl e \<Rightarrow> Inl e
      | Inr ok \<Rightarrow>
          if ok then Inr (s\<lparr>currentPiece := Some (p\<lparr>shape := rot\<rparr>),
                             currentX := currentX s + kick\<rparr>)
          else tryKicks s p rot ks)"

definition rotatePiece :: "state \<Rightarrow> error + state" where
  "rotatePiece s =
     (case currentPiece s of
        None \<Rightarrow> Inl TypeError
      | Some p \<Rightarrow> thenDo (rotated (shape p)) (\<lambda>rot. tryKicks s p rot kicks))"

section \<open>lockPiece (tetris.js, lines 212-225)\<close>

text \<open>\<open>board[boardY][boardX] = piece\<close>. A missing row raises. A negative column
  sets a property that is no array element; a column past the end of the row extends
  the row, leaving holes.\<close>

definition writeCell :: "grid \<Rightarrow> int \<Rightarrow> int \<Rightarrow> piece \<Rightarrow> error + grid" where
  "writeCell b boardY boardX p =
     (if 0 \<le> boardY \<and> nat boardY < length b then
        (let r = b ! nat boardY
         in Inr (b[nat boardY :=
                     (if boardX < 0 then r
                      else if nat boardX < length r then r[nat boardX := Filled p]
                      else r @ replicate (nat boardX - length r) Hole @ [Filled p])]))
      else Inl TypeError)"

fun lockCols :: "piece \<Rightarrow> int \<Rightarrow> int \<Rightarrow> nat list \<Rightarrow> nat \<Rightarrow> grid \<Rightarrow> error + grid" where
  "lockCols p x boardY [] col b = Inr b"
| "lockCols p x boardY (v # vs) col b =
     (if v \<noteq> 0 then
        (if boardY \<ge> 0 then
           thenDo (writeCell b boardY (x + int col) p) (lockCols p x boardY vs (Suc col))
         else lockCols p x boardY vs (Suc col) b)
      else lockCols p x boardY vs (Suc col) b)"

fun lockRows :: "piece \<Rightarrow> int \<Rightarrow> int \<Rightarrow> nat list list \<Rightarrow> nat \<Rightarrow> grid \<Rightarrow> error + grid" where
  "lockRows p x y [] row b = Inr b"
| "lockRows p x y (r # rs) row b =
     thenDo (lockCols p x (y + int row) r 0 b) (lockRows p x y rs (Suc row))"

definition lockPiece :: "state \<Rightarrow> error + state" where
  "lockPiece s =
     (case currentPiece s of
        None \<Rightarrow> Inl TypeError
      | Some p \<Rightarrow>
          thenDo (lockRows p (currentX s) (currentY s) (shape p) 0 (board s))
                 (\<lambda>b. Inr (s\<lparr>board := b\<rparr>)))"

section \<open>clearLines (tetris.js, lines 228-246)\<close>

text \<open>\<open>row.every(cell => cell !== null)\<close>: \<open>every\<close> skips holes.\<close>

definition rowFull :: "cell list \<Rightarrow> bool" where
  "rowFull r = list_all (\<lambda>c. c \<noteq> Null) r"

text \<open>The scan from the bottom row up. After a removal the loop's \<open>row++\<close> and
  \<open>row--\<close> cancel, so the same index is examined again. \<open>board[row]\<close> on a missing row
  is \<open>undefined\<close>, and calling \<open>every\<close> on it raises.\<close>

function clearLoop :: "grid \<Rightarrow> int \<Rightarrow> nat \<Rightarrow> error + (grid \<times> nat)" where
  "clearLoop b row linesCleared =
     (if row \<ge> 0 then
        (if nat row < length b then
           (if rowFull (b ! nat row)
            then clearLoop (emptyRow # (take (nat row) b @ drop (Suc (nat row)) b))
                           row (linesCleared + 1)
            else clearLoop b (row - 1) linesCleared)
         else Inl TypeError)
      else Inr (b, linesCleared))"
  by pat_completeness auto

lemma not_rowFull_emptyRow: "\<not> rowFull emptyRow"
  by (simp add: rowFull_def emptyRow_def BOARD_WIDTH_def list_all_iff)

lemma filter_rowFull_remove:
  assumes "r < length b" and "rowFull (b ! r)"
  shows "length (filter rowFull b) =
           Suc (length (filter rowFull (take r b @ drop (Suc r) b)))"
proof -
  have "b = take r b @ b ! r # drop (Suc r) b"
    using assms(1) by (rule id_take_nth_drop)
  then have "filter rowFull b =
               filter rowFull (take r b) @ b ! r # filter rowFull (drop (Suc r) b)"
    using assms(2) by (metis filter.simps(2) filter_append)
  then show ?thesis by simp
qed

text \<open>Each iteration either removes a full row, and the fresh top row is not full, or
  moves one row up.\<close>

termination clearLoop
proof (relation "measures [\<lambda>(b, row, n). length (filter rowFull b), \<lambda>(b, row, n). nat (row + 1)]")
  show "wf (measures [\<lambda>(b, row, n). length (filter rowFull b), \<lambda>(b :: grid, row, n :: nat). nat (row + 1)])"
    by simp
next
  fix b :: grid and row :: int and linesCleared :: nat
  assume "0 \<le> row" and "nat row < length b" and "rowFull (b ! nat row)"
  then show "((emptyRow # take (nat row) b @ drop (Suc (nat row)) b, row, linesCleared + 1),
              (b, row, linesCleared))
             \<in> measures [\<lambda>(b, row, n). length (filter rowFull b), \<lambda>(b, row, n). nat (row + 1)]"
    using filter_rowFull_remove [of "nat row" b] by (simp add: not_rowFull_emptyRow)
next
  fix b :: grid and row :: int and linesCleared :: nat
  assume "0 \<le> row"
  then show "((b, row - 1, linesCleared), (b, row, linesCleared))
             \<in> measures [\<lambda>(b, row, n). length (filter rowFull b), \<lambda>(b, row, n). nat (row + 1)]"
    by simp
qed

declare clearLoop.simps [simp del]

text \<open>The point table; reading it past its end gives \<open>undefined\<close>, and the product
  with the level is \<open>NaN\<close>.\<close>

definition points :: "int list" where
  "points = [0, 100, 300, 600, 1000]"

definition jsPlus :: "jsnum \<Rightarrow> jsnum \<Rightarrow> jsnum" where
  "jsPlus a b = (case (a, b) of (Num m, Num n) \<Rightarrow> Num (m + n) | _ \<Rightarrow> NaN)"

text \<open>The scoring block at the end of clearLines (lines 240-245).\<close>

definition applyScore :: "nat \<Rightarrow> state \<Rightarrow> state" where
  "applyScore linesCleared s =
     (if linesCleared > 0 then
        s\<lparr>score := jsPlus (score s)
                      (if linesCleared < length points
                       then Num (points ! linesCleared * level s) else NaN),
          lines := lines s + int linesCleared,
          level := (lines s + int linesCleared) div 10 + 1\<rparr>
      else s)"

text \<open>What a call evaluates to. clearLines has no \<open>return\<close> statement, so a call
  evaluates to \<open>undefined\<close>; the model keeps that value because the specification speaks
  of the result of clearLines. The other functions without a \<open>return\<close> value are
  modelled by their effect on the state alone.\<close>

datatype jsval = Undefined | Number int

definition clearLines :: "state \<Rightarrow> error + (jsval \<times> state)" where
  "clearLines s =
     thenDo (clearLoop (board s) (BOARD_HEIGHT - 1) 0)
            (\<lambda>(b, linesCleared). Inr (Undefined, applyScore linesCleared (s\<lparr>board := b\<rparr>)))"

section \<open>Moves, drops and the gravity tick (tetris.js, lines 365-393)\<close>

definition movePiece :: "int \<Rightarrow> int \<Rightarrow> state \<Rightarrow> error + (bool \<times> state)" where
  "movePiece dx dy s =
     (case currentPiece s of
        None \<Rightarrow> Inl TypeError
      | Some p \<Rightarrow>
          (case isValidPosition (board s) (shape p) (currentX s + dx) (currentY s + dy) of
             Inl e \<Rightarrow> Inl e
           | Inr ok \<Rightarrow>
               if ok then Inr (True, s\<lparr>currentX := currentX s + dx,
                                        currentY := currentY s + dy\<rparr>)
               else Inr (False, s)))"

text \<open>The statement sequence \<open>lockPiece(); clearLines(); spawnPiece();\<close> shared by the
  hard drop, the soft drop and the gravity tick.\<close>

definition lockClearSpawn :: "nat \<Rightarrow> nat \<Rightarrow> state \<Rightarrow> error + (bool \<times> state)" where
  "lockClearSpawn r0 r1 s =
     thenDo (thenDo (lockPiece s) clearLines) (\<lambda>(v, s'). spawnPiece r0 r1 s')"

text \<open>\<open>while (movePiece(0, 1)) {}\<close>. The loop has no bound of its own, so the model
  is a partial function: \<open>None\<close> means that the loop never ends.\<close>

partial_function (option) dropLoop :: "state \<Rightarrow> (error + state) option" where
  "dropLoop s =
     (case movePiece 0 1 s of
        Inl e \<Rightarrow> Some (Inl e)
      | Inr r \<Rightarrow> if fst r then dropLoop (snd r) else Some (Inr (snd r)))"

declare dropLoop.simps [code]

definition hardDrop :: "nat \<Rightarrow> nat \<Rightarrow> state \<Rightarrow> (error + state) option" where
  "hardDrop r0 r1 s =
     (case dropLoop s of
        None \<Rightarrow> None
      | Some r \<Rightarrow> Some (thenDo (thenDo r (lockClearSpawn r0 r1)) (\<lambda>(ok, s'). Inr s')))"

definition gameTick :: "nat \<Rightarrow> nat \<Rightarrow> state \<Rightarrow> error + state" where
  "gameTick r0 r1 s =
     (if \<not> gameRunning s \<or> gamePaused s then Inr s
      else thenDo (movePiece 0 1 s)
             (\<lambda>(moved, s1).
                if \<not> moved
                then thenDo (lockClearSpawn r0 r1 s1) (\<lambda>(ok, s2). Inr s2)
                else Inr s1))"

section \<open>Sessions and input (tetris.js, lines 417-490)\<close>

definition initGame :: "nat \<Rightarrow> nat \<Rightarrow> state \<Rightarrow> error + state" where
  "initGame r0 r1 s =
     thenDo (spawnPiece r0 r1
               (s\<lparr>board := initBoard, score := Num 0, lines := 0, level := 1,
                  nextPieceIndex := - 1, gameRunning := True, gamePaused := False\<rparr>))
            (\<lambda>(ok, s'). Inr s')"

definition quitGame :: "state \<Rightarrow> state" where
  "quitGame s = (saveHighScore (s\<lparr>gameRunning := False\<rparr>))\<lparr>exited := True\<rparr>"

text \<open>\<open>name\<close> is \<open>key.name\<close>; \<open>r0\<close> and \<open>r1\<close> are the random draws a spawn may
  make while the key is handled.\<close>

definition handleInput :: "string \<Rightarrow> nat \<Rightarrow> nat \<Rightarrow> state \<Rightarrow> (error + state) option" where
  "handleInput name r0 r1 s =
     (if \<not> gameRunning s then
        (if name = ''r'' \<or> name = ''R'' then Some (initGame r0 r1 s) else Some (Inr s))
      else if name = ''p'' \<or> name = ''P'' then Some (Inr (s\<lparr>gamePaused := \<not> gamePaused s\<rparr>))
      else if gamePaused s then Some (Inr s)
      else if name = ''left'' \<or> name = ''a'' then
        Some (thenDo (movePiece (- 1) 0 s) (\<lambda>(moved, s'). Inr s'))
      else if name = ''right'' \<or> name = ''d'' then
        Some (thenDo (movePiece 1 0 s) (\<lambda>(moved, s'). Inr s'))
      else if name = ''up'' \<or> name = ''w'' then Some (rotatePiece s)
      else if name = ''down'' \<or> name = ''s'' then
        Some (thenDo (movePiece 0 1 s)
                (\<lambda>(moved, s1).
                   if \<not> moved
                   then thenDo (lockClearSpawn r0 r1 s1) (\<lambda>(ok, s2). Inr s2)
                   else Inr s1))
      else if name = ''space'' then hardDrop r0 r1 s
      else if name = ''q'' \<or> name = ''Q'' \<or> name = ''escape'' then Some (Inr (quitGame s))
      else Some (Inr s))"

text \<open>What drives the engine once a game has been started: a key press, a firing of
  the gravity timer, or the interrupt signal. Nothing is delivered after the process
  has exited.\<close>

datatype event = Keypress string nat nat | Tick nat nat | Sigint

fun step :: "event \<Rightarrow> state \<Rightarrow> (error + state) option" where
  "step (Keypress name r0 r1) s = handleInput name r0 r1 s"
| "step (Tick r0 r1) s = Some (gameTick r0 r1 s)"
| "step Sigint s = Some (Inr (quitGame s))"

fun run :: "event list \<Rightarrow> state \<Rightarrow> (error + state) option" where
  "run [] s = Some (Inr s)"
| "run (e # es) s =
     (if exited s then Some (Inr s)
      else case step e s of
             None \<Rightarrow> None
           | Some (Inl err) \<Rightarrow> Some (Inl err)
           | Some (Inr s') \<Rightarrow> run es s')"

text \<open>The draws of an event are results of \<open>Math.floor(Math.random() * PIECES.length)\<close>.\<close>

fun drawsOk :: "event \<Rightarrow> bool" where
  "drawsOk (Keypress name r0 r1) = (r0 < length PIECES \<and> r1 < length PIECES)"
| "drawsOk (Tick r0 r1) = (r0 < length PIECES \<and> r1 < length PIECES)"
| "drawsOk Sigint = True"

text \<open>Start-up (lines 493-543): the high score is loaded once; on the first key press
  the permanent listener runs \<open>handleInput\<close> and then the one-shot listener runs
  \<open>initGame\<close>.\<close>

definition main :: "string option \<Rightarrow> bool \<Rightarrow> state" where
  "main file fails = loadHighScore (initialState file fails)"

definition firstKeypress ::
    "string \<Rightarrow> nat \<Rightarrow> nat \<Rightarrow> nat \<Rightarrow> nat \<Rightarrow> state \<Rightarrow> (error + state) option" where
  "firstKeypress name r0 r1 r2 r3 s =
     (case handleInput name r0 r1 s of
        None \<Rightarrow> None
      | Some r \<Rightarrow> Some (thenDo r (initGame r2 r3)))"

section \<open>Vocabulary of the properties\<close>

text \<open>The indices of the full rows of a board, in ascending order.\<close>

definition fullRows :: "grid \<Rightarrow> nat list" where
  "fullRows b = filter (\<lambda>i. rowFull (b ! i)) [0..<length b]"

text \<open>The occupied cells of a shape matrix, as (row, column) pairs in scan order.\<close>

definition cells :: "nat list list \<Rightarrow> (nat \<times> nat) list" where
  "cells m =
     concat (map (\<lambda>row. map (\<lambda>col. (row, col))
                          (filter (\<lambda>col. m ! row ! col \<noteq> 0) [0..<length (m ! row)]))
                 [0..<length m])"

text \<open>Board cell (row \<open>r\<close>, column \<open>c\<close>) exists and holds a locked piece.\<close>

definition occupied :: "grid \<Rightarrow> int \<Rightarrow> int \<Rightarrow> bool" where
  "occupied b r c =
     (0 \<le> r \<and> nat r < length b \<and> 0 \<le> c \<and> nat c < length (b ! nat r) \<and>
      truthy (b ! nat r ! nat c))"

text \<open>A cell at absolute row \<open>r\<close> and column \<open>c\<close> collides: it is outside the side
  walls, at or below the floor, or on a locked cell of the board.\<close>

definition collides :: "grid \<Rightarrow> int \<Rightarrow> int \<Rightarrow> bool" where
  "collides b r c =
     (c < 0 \<or> BOARD_WIDTH \<le> c \<or> BOARD_HEIGHT \<le> r \<or> (0 \<le> r \<and> occupied b r c))"

text \<open>No occupied cell of matrix \<open>m\<close> placed at origin column \<open>x\<close>, row \<open>y\<close> collides.\<close>

definition fits :: "grid \<Rightarrow> nat list list \<Rightarrow> int \<Rightarrow> int \<Rightarrow> bool" where
  "fits b m x y =
     list_all (\<lambda>(row, col). \<not> collides b (y + int row) (x + int col)) (cells m)"

text \<open>A matrix with \<open>rows\<close> rows of \<open>cols\<close> cells each.\<close>

definition rect :: "nat list list \<Rightarrow> nat \<Rightarrow> nat \<Rightarrow> bool" where
  "rect m rows cols = (length m = rows \<and> list_all (\<lambda>r. length r = cols) m)"

text \<open>The kick at which a rotation attempt in state \<open>s\<close> succeeds, if there is one:
  the first of the kicks, in their order, at which the rotated matrix is valid.\<close>

definition kickChosen :: "state \<Rightarrow> int option" where
  "kickChosen s =
     (case currentPiece s of
        None \<Rightarrow> None
      | Some p \<Rightarrow>
          (case rotated (shape p) of
             Inl e \<Rightarrow> None
           | Inr rot \<Rightarrow>
               find (\<lambda>kick. isValidPosition (board s) rot (currentX s + kick) (currentY s) = Inr True)
                    [0, - 1, 1, - 2, 2]))"

text \<open>A shape matrix as the game has them: between one and four rows, all of the same
  length between one and four, and at least one occupied cell.\<close>

definition shapeOk :: "nat list list \<Rightarrow> bool" where
  "shapeOk m =
     (0 < length m \<and> length m \<le> 4 \<and> 0 < length (hd m) \<and> length (hd m) \<le> 4 \<and>
      rect m (length m) (length (hd m)) \<and> cells m \<noteq> [])"

text \<open>A grid of \<open>BOARD_HEIGHT\<close> rows of \<open>BOARD_WIDTH\<close> cells.\<close>

definition dims :: "grid \<Rightarrow> bool" where
  "dims b =
     (int (length b) = BOARD_HEIGHT \<and> list_all (\<lambda>r. int (length r) = BOARD_WIDTH) b)"

text \<open>A board between two events: the right dimensions and no full row.\<close>

definition boardOk :: "grid \<Rightarrow> bool" where
  "boardOk b = (dims b \<and> list_all (\<lambda>r. \<not> rowFull r) b)"

text \<open>The active piece is at a valid position.\<close>

definition placed :: "state \<Rightarrow> bool" where
  "placed s =
     (case currentPiece s of
        None \<Rightarrow> False
      | Some p \<Rightarrow> isValidPosition (board s) (shape p) (currentX s) (currentY s) = Inr True)"

text \<open>What holds of the engine state between two events, once a game has been
  started.\<close>

definition stateOk :: "state \<Rightarrow> bool" where
  "stateOk s =
     (boardOk (board s) \<and>
      (case currentPiece s of None \<Rightarrow> False | Some p \<Rightarrow> shapeOk (shape p)) \<and>
      0 \<le> currentY s \<and>
      0 \<le> nextPieceIndex s \<and> nextPieceIndex s < int (length PIECES) \<and>
      0 \<le> lines s \<and> level s = lines s div 10 + 1 \<and>
      (gameRunning s \<longrightarrow> placed s))"

text \<open>The hard-drop loop with a bound on the number of iterations: \<open>None\<close> when the
  bound is reached before the loop ends.\<close>

fun dropWithin :: "nat \<Rightarrow> state \<Rightarrow> (error + state) option" where
  "dropWithin 0 s = None"
| "dropWithin (Suc n) s =
     (case movePiece 0 1 s of
        Inl e \<Rightarrow> Some (Inl e)
      | Inr r \<Rightarrow> if fst r then dropWithin n (snd r) else Some (Inr (snd r)))"

text \<open>The absolute (row, column) positions of the cells of the active piece.\<close>

definition activeCells :: "state \<Rightarrow> (int \<times> int) list" where
  "activeCells s =
     (case currentPiece s of
        None \<Rightarrow> []
      | Some p \<Rightarrow> map (\<lambda>(row, col). (currentY s + int row, currentX s + int col))
                      (cells (shape p)))"

text \<open>The level is the one that the number of cleared lines gives.\<close>

definition levelOk :: "state \<Rightarrow> bool" where
  "levelOk s = (level s = lines s div 10 + 1)"

text \<open>The T piece with another orientation matrix, and a state for the rotation
  examples: the T piece, turned once, against the right wall of an empty board.\<close>

definition kickPiece :: "nat list list \<Rightarrow> piece" where
  "kickPiece m = (PIECES ! 2)\<lparr>shape := m\<rparr>"

definition kickState :: state where
  "kickState =
     (initialState None False)
       \<lparr>board := initBoard, currentPiece := Some (kickPiece [[1, 0], [1, 1], [1, 0]]),
        currentX := 8, currentY := 5\<rparr>"

text \<open>A short game: the T piece is spawned, moved left, turned and hard-dropped; the
  I piece follows.\<close>

definition demoStart :: state where
  "demoStart =
     (initialState None False)
       \<lparr>board := initBoard, currentPiece := Some (PIECES ! 2), currentX := 3,
        gameRunning := True, nextPieceIndex := 0\<rparr>"

definition demoEvents :: "event list" where
  "demoEvents = [Keypress ''left'' 0 0, Keypress ''up'' 0 0, Keypress ''space'' 1 1]"

definition demoTurned :: state where
  "demoTurned =
     demoStart\<lparr>currentPiece := Some (kickPiece [[1, 0], [1, 1], [1, 0]]), currentX := 2\<rparr>"

definition demoBoard :: grid where
  "demoBoard =
     replicate 17 emptyRow @
     [[Null, Null, Filled (kickPiece [[1, 0], [1, 1], [1, 0]])] @ replicate 7 Null,
      [Null, Null, Filled (kickPiece [[1, 0], [1, 1], [1, 0]]),
       Filled (kickPiece [[1, 0], [1, 1], [1, 0]])] @ replicate 6 Null,
      [Null, Null, Filled (kickPiece [[1, 0], [1, 1], [1, 0]])] @ replicate 7 Null]"

definition demoEnd :: state where
  "demoEnd = demoStart\<lparr>board := demoBoard, currentPiece := Some (PIECES ! 0), nextPieceIndex := 1\<rparr>"

text \<open>Another short game: the T piece is turned, moved to the right wall and lowered by
  five rows.\<close>

definition wallEvents :: "event list" where
  "wallEvents =
     Keypress ''up'' 0 0 # replicate 5 (Keypress ''right'' 0 0) @ replicate 5 (Keypress ''down'' 0 0)"

definition wallState :: state where
  "wallState =
     demoStart\<lparr>currentPiece := Some (kickPiece [[1, 0], [1, 1], [1, 0]]), currentX := 8,
               currentY := 5\<rparr>"

text \<open>A state whose next piece, the T piece, cannot be spawned: the cell in row 0,
  column 4 is taken.\<close>

definition blockedState :: state where
  "blockedState =
     demoStart\<lparr>board := (replicate 4 Null @ [Filled (PIECES ! 1)] @ replicate 5 Null) #
                         replicate 19 emptyRow,
               nextPieceIndex := 2\<rparr>"

text \<open>Two games in one process that starts without a high-score file. In the first,
  four I pieces and an O piece fill the two bottom rows (300 points), then ten O pieces
  are stacked to the top and the eleventh cannot be spawned. After the restart key, two
  I pieces and an O piece fill the bottom row (100 points) and the O pieces are stacked
  again.\<close>

definition sessionOne :: "event list" where
  "sessionOne =
     replicate 3 (Keypress ''left'' 0 0) @ [Keypress ''space'' 0 0] @
     replicate 3 (Keypress ''left'' 0 0) @ [Keypress ''space'' 0 0] @
     [Keypress ''right'' 0 0, Keypress ''space'' 0 1] @
     [Keypress ''right'' 0 0, Keypress ''space'' 0 1] @
     replicate 4 (Keypress ''right'' 0 0) @ [Keypress ''space'' 0 1] @
     replicate 10 (Keypress ''space'' 0 1)"

definition sessionTwo :: "event list" where
  "sessionTwo =
     replicate 3 (Keypress ''left'' 0 0) @ [Keypress ''space'' 0 1] @
     [Keypress ''right'' 0 0, Keypress ''space'' 0 1] @
     replicate 4 (Keypress ''right'' 0 0) @ [Keypress ''space'' 0 1] @
     replicate 10 (Keypress ''space'' 0 1)"

text \<open>The process from its start: the high score is loaded, a first key starts the game
  with two I pieces, and the events follow.\<close>

definition process :: "string option \<Rightarrow> event list \<Rightarrow> (error + state) option" where
  "process file evs =
     (case firstKeypress ''x'' 0 0 0 0 (main file False) of
        None \<Rightarrow> None
      | Some (Inl e) \<Rightarrow> Some (Inl e)
      | Some (Inr s) \<Rightarrow> run evs s)"

text \<open>What a run leaves behind: whether the game is running, the score, the
  \<open>highScore\<close> variable and the contents of the high-score file.\<close>

definition outcome ::
    "(error + state) option \<Rightarrow> (bool \<times> jsnum \<times> int \<times> string option) option" where
  "outcome r =
     (case r of
        Some (Inr s) \<Rightarrow> Some (gameRunning s, score s, highScore s, highScoreFile s)
      | _ \<Rightarrow> None)"

text \<open>A board for the four-line clear: rows 5 to 8 full, a marked cell in row 4.\<close>

definition fullRow :: "cell list" where
  "fullRow = replicate 10 (Filled (PIECES ! 0))"

definition markedRow :: "cell list" where
  "markedRow = Filled (PIECES ! 1) # replicate 9 Null"

definition tetrisBoard :: grid where
  "tetrisBoard = replicate 4 emptyRow @ [markedRow] @ replicate 4 fullRow @ replicate 11 emptyRow"

section \<open>Sequencing\<close>

lemma thenDo_Inr [simp]: "thenDo (Inr v) f = f v"
  by (simp add: thenDo_def)

lemma thenDo_Inl [simp]: "thenDo (Inl e) f = Inl e"
  by (simp add: thenDo_def)

lemma thenDo_assoc: "thenDo (thenDo r f) g = thenDo r (\<lambda>v. thenDo (f v) g)"
  by (cases r) simp_all

section \<open>Properties of isValidPosition\<close>

lemma set_cells:
  "set (cells m) = {(row, col). row < length m \<and> col < length (m ! row) \<and> m ! row ! col \<noteq> 0}"
  by (auto simp: cells_def)

lemma fits_iff:
  "fits b m x y \<longleftrightarrow>
     (\<forall>row col. row < length m \<longrightarrow> col < length (m ! row) \<longrightarrow> m ! row ! col \<noteq> 0 \<longrightarrow>
        \<not> collides b (y + int row) (x + int col))"
  by (auto simp: fits_def list_all_iff set_cells)

lemma boardAt_occupied:
  "0 \<le> r \<Longrightarrow> r < int (length b) \<Longrightarrow> boardAt b r c = Inr (occupied b r c)"
  by (auto simp: boardAt_def occupied_def Let_def)

lemma validCols_spec:
  assumes "int (length b) = BOARD_HEIGHT"
  shows "validCols b x newY vs col =
           Inr (\<forall>i<length vs. vs ! i \<noteq> 0 \<longrightarrow> \<not> collides b newY (x + int (col + i)))"
proof (induction vs arbitrary: col)
  case Nil
  show ?case by simp
next
  case (Cons v vs)
  have split: "\<And>P. (\<forall>i<Suc (length vs). P i) \<longleftrightarrow> P 0 \<and> (\<forall>i<length vs. P (Suc i))"
    by (metis less_Suc_eq_0_disj)
  show ?case
  proof (cases "0 \<le> newY \<and> newY < BOARD_HEIGHT")
    case True
    then have "boardAt b newY (x + int col) = Inr (occupied b newY (x + int col))"
      using assms by (simp add: boardAt_occupied)
    then show ?thesis
      using True by (simp add: Cons.IH split collides_def Let_def ac_simps)
  next
    case False
    then show ?thesis
      by (auto simp: Cons.IH split collides_def Let_def occupied_def ac_simps)
  qed
qed

lemma validRows_spec:
  assumes "int (length b) = BOARD_HEIGHT"
  shows "validRows b x y rs row =
           Inr (\<forall>i<length rs. \<forall>j<length (rs ! i). rs ! i ! j \<noteq> 0 \<longrightarrow>
                   \<not> collides b (y + int (row + i)) (x + int j))"
proof (induction rs arbitrary: row)
  case Nil
  show ?case by simp
next
  case (Cons r rs)
  have split: "\<And>P. (\<forall>i<Suc (length rs). P i) \<longleftrightarrow> P 0 \<and> (\<forall>i<length rs. P (Suc i))"
    by (metis less_Suc_eq_0_disj)
  show ?case
    by (simp add: validCols_spec [OF assms] Cons.IH split ac_simps)
qed

lemma isValidPosition_fits:
  "int (length b) = BOARD_HEIGHT \<Longrightarrow> isValidPosition b m x y = Inr (fits b m x y)"
  by (simp add: isValidPosition_def validRows_spec fits_iff)

text \<open>
  Claim C1. On a board of \<open>BOARD_HEIGHT\<close> rows, \<open>isValidPosition\<close> always returns a
  boolean. It returns false exactly when some occupied cell of the matrix maps to a
  column outside \<open>[0, BOARD_WIDTH)\<close>, or to a row \<open>\<ge> BOARD_HEIGHT\<close>, or to a row
  \<open>\<ge> 0\<close> whose board cell is occupied. A placement whose occupied cells all have
  columns in range and rows below \<open>BOARD_HEIGHT\<close>, each row being negative or landing
  on a cell that is not occupied, is accepted.
\<close>

theorem isValidPosition_correct:
  assumes "int (length b) = BOARD_HEIGHT"
  shows "(isValidPosition b m x y = Inr False \<longleftrightarrow>
            (\<exists>(row, col) \<in> set (cells m).
                x + int col < 0 \<or> BOARD_WIDTH \<le> x + int col \<or> BOARD_HEIGHT \<le> y + int row \<or>
                (0 \<le> y + int row \<and> occupied b (y + int row) (x + int col)))) \<and>
         ((\<forall>(row, col) \<in> set (cells m).
                0 \<le> x + int col \<and> x + int col < BOARD_WIDTH \<and> y + int row < BOARD_HEIGHT \<and>
                (y + int row < 0 \<or> \<not> occupied b (y + int row) (x + int col)))
            \<longrightarrow> isValidPosition b m x y = Inr True) \<and>
         (isValidPosition b m x y = Inr True \<or> isValidPosition b m x y = Inr False)"
proof -
  have eq: "isValidPosition b m x y = Inr (fits b m x y)"
    using assms by (rule isValidPosition_fits)
  have "fits b m x y \<longleftrightarrow>
          \<not> (\<exists>(row, col) \<in> set (cells m).
                x + int col < 0 \<or> BOARD_WIDTH \<le> x + int col \<or> BOARD_HEIGHT \<le> y + int row \<or>
                (0 \<le> y + int row \<and> occupied b (y + int row) (x + int col)))"
    by (auto simp: fits_def list_all_iff collides_def)
  moreover have "fits b m x y"
    if "\<forall>(row, col) \<in> set (cells m).
                0 \<le> x + int col \<and> x + int col < BOARD_WIDTH \<and> y + int row < BOARD_HEIGHT \<and>
                (y + int row < 0 \<or> \<not> occupied b (y + int row) (x + int col))"
    using that by (fastforce simp: fits_def list_all_iff collides_def)
  ultimately show ?thesis
    unfolding eq by auto
qed

theorem isValidPosition_correct_witness:
  "int (length initBoard) = BOARD_HEIGHT \<and>
   isValidPosition initBoard [[0, 1, 0], [1, 1, 1]] 3 (- 1) = Inr True \<and>
   isValidPosition initBoard [[0, 1, 0], [1, 1, 1]] 8 0 = Inr False \<and>
   cells [[0, 1, 0], [1, 1, 1]] = [(0, 1), (1, 0), (1, 1), (1, 2)]"
proof -
  have len: "int (length initBoard) = BOARD_HEIGHT"
    by (simp add: initBoard_def BOARD_HEIGHT_def)
  have c: "cells [[0, 1, 0], [1, 1, 1]] = [(0, 1), (1, 0), (1, 1), (1, 2)]"
    by code_simp
  have above: "isValidPosition initBoard [[0, 1, 0], [1, 1, 1]] 3 (- 1) = Inr True"
    by code_simp
  have wall: "isValidPosition initBoard [[0, 1, 0], [1, 1, 1]] 8 0 = Inr False"
    by code_simp
  show ?thesis
    using isValidPosition_correct [OF len, of "[[0, 1, 0], [1, 1, 1]]" 3 "- 1"] len c above wall
    by blast
qed

section \<open>Properties of clearLines\<close>

lemma clearLoop_spec:
  "- 1 \<le> row \<Longrightarrow> nat (row + 1) \<le> length b \<Longrightarrow>
   clearLoop b row n =
     Inr (replicate (length (filter rowFull (take (nat (row + 1)) b))) emptyRow @
          filter (\<lambda>r. \<not> rowFull r) (take (nat (row + 1)) b) @ drop (nat (row + 1)) b,
          n + length (filter rowFull (take (nat (row + 1)) b)))"
proof (induction b row n rule: clearLoop.induct)
  case (1 b row n)
  show ?case
  proof (cases "row \<ge> 0")
    case False
    with "1.prems" have "row = - 1" by simp
    then show ?thesis by (simp add: clearLoop.simps)
  next
    case True
    define r where "r = nat row"
    have row: "row = int r" using True by (simp add: r_def)
    have rlt: "r < length b" using "1.prems" True by (simp add: r_def)
    have tk: "take (Suc r) b = take r b @ [b ! r]"
      using rlt by (simp add: take_Suc_conv_app_nth)
    have dr: "drop r b = b ! r # drop (Suc r) b"
      using rlt by (simp add: Cons_nth_drop_Suc)
    show ?thesis
    proof (cases "rowFull (b ! r)")
      case full: True
      let ?b' = "emptyRow # take r b @ drop (Suc r) b"
      have len': "length ?b' = length b" using rlt by simp
      have IH: "clearLoop ?b' row (n + 1) =
         Inr (replicate (length (filter rowFull (take (nat (row + 1)) ?b'))) emptyRow @
          filter (\<lambda>r. \<not> rowFull r) (take (nat (row + 1)) ?b') @ drop (nat (row + 1)) ?b',
          (n + 1) + length (filter rowFull (take (nat (row + 1)) ?b')))"
        using "1.IH"(1) [OF True] rlt full "1.prems" len' True unfolding r_def by simp
      have tk': "take (Suc r) ?b' = emptyRow # take r b" using rlt by simp
      have dr': "drop (Suc r) ?b' = drop (Suc r) b" using rlt by simp
      have step: "clearLoop b row n = clearLoop ?b' row (n + 1)"
        using True rlt full by (subst clearLoop.simps) (simp add: r_def)
      show ?thesis
        unfolding step IH
        using rlt
        by (simp add: row nat_add_distrib tk full not_rowFull_emptyRow
              replicate_app_Cons_same min_absorb2)
    next
      case notfull: False
      have IH: "clearLoop b (row - 1) n =
         Inr (replicate (length (filter rowFull (take (nat (row - 1 + 1)) b))) emptyRow @
          filter (\<lambda>r. \<not> rowFull r) (take (nat (row - 1 + 1)) b) @ drop (nat (row - 1 + 1)) b,
          n + length (filter rowFull (take (nat (row - 1 + 1)) b)))"
        using "1.IH"(2) [OF True] rlt notfull "1.prems" True unfolding r_def by simp
      have step: "clearLoop b row n = clearLoop b (row - 1) n"
        using True rlt notfull by (subst clearLoop.simps) (simp add: r_def)
      show ?thesis
        unfolding step IH
        by (simp add: row nat_add_distrib tk dr notfull)
    qed
  qed
qed

lemma clearLines_general:
  assumes "int (length (board s)) = BOARD_HEIGHT"
  shows "clearLines s =
           Inr (Undefined, applyScore (length (filter rowFull (board s)))
                  (s\<lparr>board := replicate (length (filter rowFull (board s))) emptyRow @
                                filter (\<lambda>r. \<not> rowFull r) (board s)\<rparr>))"
proof -
  have "nat (BOARD_HEIGHT - 1 + 1) = length (board s)"
    using assms by simp
  then show ?thesis
    using clearLoop_spec [of "BOARD_HEIGHT - 1" "board s" 0]
    by (simp add: clearLines_def BOARD_HEIGHT_def)
qed

lemma fullRows_5678:
  assumes len: "length b = 20" and full: "fullRows b = [5, 6, 7, 8]"
  shows "filter rowFull b = take 4 (drop 5 b)"
    and "filter (\<lambda>r. \<not> rowFull r) b = take 5 b @ drop 9 b"
proof -
  have iff: "rowFull (b ! i) \<longleftrightarrow> i \<in> {5, 6, 7, 8}" if "i < 20" for i
  proof -
    have "i \<in> set (fullRows b) \<longleftrightarrow> rowFull (b ! i)"
      using that len by (simp add: fullRows_def)
    then show ?thesis by (simp add: full)
  qed
  have split: "b = take 5 b @ take 4 (drop 5 b) @ drop 9 b"
    by (metis add_numeral_left append_take_drop_id drop_drop numeral_plus_numeral
          semiring_norm(2) semiring_norm(6) take_drop add.commute numeral_Bit0 numeral_Bit1)
  have top: "\<forall>r \<in> set (take 5 b). \<not> rowFull r"
    using len iff by (auto simp: in_set_conv_nth)
  have mid: "\<forall>r \<in> set (take 4 (drop 5 b)). rowFull r"
    using len iff by (auto simp: in_set_conv_nth)
  have bot: "\<forall>r \<in> set (drop 9 b). \<not> rowFull r"
    using len iff by (auto simp: in_set_conv_nth)
  have "filter rowFull b =
          filter rowFull (take 5 b) @ filter rowFull (take 4 (drop 5 b)) @ filter rowFull (drop 9 b)"
    by (subst split) simp
  then show "filter rowFull b = take 4 (drop 5 b)"
    using top mid bot by (simp add: filter_id_conv filter_empty_conv)
  have "filter (\<lambda>r. \<not> rowFull r) b =
          filter (\<lambda>r. \<not> rowFull r) (take 5 b) @ filter (\<lambda>r. \<not> rowFull r) (take 4 (drop 5 b)) @
          filter (\<lambda>r. \<not> rowFull r) (drop 9 b)"
    by (subst split) simp
  then show "filter (\<lambda>r. \<not> rowFull r) b = take 5 b @ drop 9 b"
    using top mid bot by (simp add: filter_id_conv filter_empty_conv)
qed

text \<open>
  Claim C2. On a board of \<open>BOARD_HEIGHT\<close> rows, \<open>clearLines\<close> removes every full row
  and puts one empty row on top for each, keeping the other rows in their order, however
  many rows are full; the scoring block is then applied to the number of removed rows. In
  particular, when exactly rows 5, 6, 7 and 8 are full, exactly these are removed, each
  of the rows 0 to 4 moves down by 4, the rows below stay, and the score grows by
  \<open>1000 * level\<close>.
\<close>

theorem clearLines_correct:
  assumes "int (length (board s)) = BOARD_HEIGHT"
  shows "clearLines s =
           Inr (Undefined, applyScore (length (filter rowFull (board s)))
                  (s\<lparr>board := replicate (length (filter rowFull (board s))) emptyRow @
                                filter (\<lambda>r. \<not> rowFull r) (board s)\<rparr>)) \<and>
         (fullRows (board s) = [5, 6, 7, 8] \<longrightarrow>
            clearLines s =
              Inr (Undefined, s\<lparr>board := replicate 4 emptyRow @ take 5 (board s) @ drop 9 (board s),
                     score := jsPlus (score s) (Num (1000 * level s)),
                     lines := lines s + 4,
                     level := (lines s + 4) div 10 + 1\<rparr>) \<and>
            (\<forall>i<5. (replicate 4 emptyRow @ take 5 (board s) @ drop 9 (board s)) ! (i + 4)
                      = board s ! i))"
proof (intro conjI impI)
  show gen: "clearLines s =
           Inr (Undefined, applyScore (length (filter rowFull (board s)))
                  (s\<lparr>board := replicate (length (filter rowFull (board s))) emptyRow @
                                filter (\<lambda>r. \<not> rowFull r) (board s)\<rparr>))"
    using assms by (rule clearLines_general)
  assume full: "fullRows (board s) = [5, 6, 7, 8]"
  have len: "length (board s) = 20"
    using assms by (simp add: BOARD_HEIGHT_def)
  note f = fullRows_5678 [OF len full]
  have k: "length (filter rowFull (board s)) = 4"
    using len by (simp add: f(1))
  show "clearLines s =
              Inr (Undefined, s\<lparr>board := replicate 4 emptyRow @ take 5 (board s) @ drop 9 (board s),
                     score := jsPlus (score s) (Num (1000 * level s)),
                     lines := lines s + 4,
                     level := (lines s + 4) div 10 + 1\<rparr>)"
    unfolding gen k f(2) by (simp add: applyScore_def points_def)
  show "\<forall>i<5. (replicate 4 emptyRow @ take 5 (board s) @ drop 9 (board s)) ! (i + 4)
                      = board s ! i"
    using len by (simp add: nth_append)
qed

theorem clearLines_correct_witness:
  "int (length (board ((initialState None False)\<lparr>board := tetrisBoard\<rparr>))) = BOARD_HEIGHT \<and>
   fullRows (board ((initialState None False)\<lparr>board := tetrisBoard\<rparr>)) = [5, 6, 7, 8] \<and>
   clearLines ((initialState None False)\<lparr>board := tetrisBoard\<rparr>) =
     Inr (Undefined, (initialState None False)
            \<lparr>board := replicate 8 emptyRow @ [markedRow] @ replicate 11 emptyRow,
             score := Num 1000, lines := 4\<rparr>)"
proof -
  have len: "int (length (board ((initialState None False)\<lparr>board := tetrisBoard\<rparr>))) = BOARD_HEIGHT"
    by code_simp
  have full: "fullRows (board ((initialState None False)\<lparr>board := tetrisBoard\<rparr>)) = [5, 6, 7, 8]"
    by code_simp
  have run: "clearLines ((initialState None False)\<lparr>board := tetrisBoard\<rparr>) =
     Inr (Undefined, (initialState None False)
            \<lparr>board := replicate 8 emptyRow @ [markedRow] @ replicate 11 emptyRow,
             score := Num 1000, lines := 4\<rparr>)"
    by code_simp
  show ?thesis
    using clearLines_correct [OF len] len full run by blast
qed

section \<open>Properties of the rotation\<close>

lemma fold_update_cols:
  "n \<le> length rot \<Longrightarrow>
   fold (\<lambda>col rot. rot[col := (rot ! col)[j := f col]]) [0..<n] rot =
     map (\<lambda>c. if c < n then (rot ! c)[j := f c] else rot ! c) [0..<length rot]"
proof (induction n)
  case 0
  show ?case by (simp add: map_nth)
next
  case (Suc n)
  then have IH: "fold (\<lambda>col rot. rot[col := (rot ! col)[j := f col]]) [0..<n] rot =
     map (\<lambda>c. if c < n then (rot ! c)[j := f c] else rot ! c) [0..<length rot]"
    by simp
  show ?case
    using Suc.prems
    by (auto simp: IH intro!: nth_equalityI simp: nth_list_update less_Suc_eq)
qed

lemma rotateLoop_closed:
  "rotateLoop m rows cols =
     map (\<lambda>c. map (\<lambda>j. shapeAt m (rows - 1 - j) c) [0..<rows]) [0..<cols]"
proof -
  define inner where
    "inner = (\<lambda>row rotated.
                fold (\<lambda>col rotated.
                        rotated[col := (rotated ! col)[rows - 1 - row := shapeAt m row col]])
                     [0..<cols] rotated)"
  define P where
    "P = (\<lambda>k. map (\<lambda>c. map (\<lambda>j. if rows - 1 - j < k then shapeAt m (rows - 1 - j) c else 0)
                             [0..<rows]) [0..<cols])"
  have inner_P: "inner k (P k) = P (Suc k)" if "k < rows" for k
  proof -
    have "inner k (P k) =
            map (\<lambda>c. if c < cols then (P k ! c)[rows - 1 - k := shapeAt m k c] else P k ! c)
                [0..<length (P k)]"
      unfolding inner_def by (rule fold_update_cols) (simp add: P_def)
    also have "\<dots> = P (Suc k)"
      using that by (auto simp: P_def nth_list_update intro!: nth_equalityI)
    finally show ?thesis .
  qed
  have part: "fold inner [0..<k] (replicate cols (replicate rows 0)) = P k" if "k \<le> rows" for k
    using that
  proof (induction k)
    case 0
    show ?case by (simp add: P_def map_replicate_const)
  next
    case (Suc k)
    then show ?case by (simp add: inner_P)
  qed
  have "rotateLoop m rows cols = fold inner [0..<rows] (replicate cols (replicate rows 0))"
    unfolding rotateLoop_def inner_def ..
  also have "\<dots> = P rows"
    by (rule part) simp
  also have "\<dots> = map (\<lambda>c. map (\<lambda>j. shapeAt m (rows - 1 - j) c) [0..<rows]) [0..<cols]"
    by (simp add: P_def)
  finally show ?thesis .
qed

lemma rotated_rect:
  assumes "rect m rows cols" and "0 < rows"
  shows "rotated m = Inr (map (\<lambda>c. map (\<lambda>j. m ! (rows - 1 - j) ! c) [0..<rows]) [0..<cols])"
proof -
  obtain r rs where m: "m = r # rs"
    using assms by (cases m) (auto simp: rect_def)
  have len: "length r = cols" "length m = rows"
    using assms by (auto simp: rect_def m)
  have at: "shapeAt m i c = m ! i ! c" if "i < rows" "c < cols" for i c
    using that assms by (simp add: shapeAt_def rect_def list_all_length)
  have "rotated m = Inr (rotateLoop m rows cols)"
    using len by (simp add: rotated_def m)
  also have "rotateLoop m rows cols =
      map (\<lambda>c. map (\<lambda>j. m ! (rows - 1 - j) ! c) [0..<rows]) [0..<cols]"
    unfolding rotateLoop_closed using assms(2) by (auto simp: at)
  finally show ?thesis .
qed

lemma rect_rotated:
  "rect (map (\<lambda>c. map (\<lambda>j. m ! (rows - 1 - j) ! c) [0..<rows]) [0..<cols]) cols rows"
  by (simp add: rect_def list_all_iff)

lemma rotated_twice:
  assumes "rect m rows cols" and "0 < rows" and "0 < cols"
  shows "thenDo (rotated m) rotated =
           Inr (map (\<lambda>i. map (\<lambda>j. m ! (rows - 1 - i) ! (cols - 1 - j)) [0..<cols]) [0..<rows])"
proof -
  let ?R = "map (\<lambda>c. map (\<lambda>j. m ! (rows - 1 - j) ! c) [0..<rows]) [0..<cols]"
  have "thenDo (rotated m) rotated = rotated ?R"
    by (simp add: rotated_rect [OF assms(1,2)])
  also have "\<dots> = Inr (map (\<lambda>c. map (\<lambda>j. ?R ! (cols - 1 - j) ! c) [0..<cols]) [0..<rows])"
    by (rule rotated_rect [OF rect_rotated assms(3)])
  also have "map (\<lambda>c. map (\<lambda>j. ?R ! (cols - 1 - j) ! c) [0..<cols]) [0..<rows] =
             map (\<lambda>i. map (\<lambda>j. m ! (rows - 1 - i) ! (cols - 1 - j)) [0..<cols]) [0..<rows]"
    using assms(2,3) by auto
  finally show ?thesis .
qed

lemma rect_half_turn:
  "rect (map (\<lambda>i. map (\<lambda>j. m ! (rows - 1 - i) ! (cols - 1 - j)) [0..<cols]) [0..<rows]) rows cols"
  by (simp add: rect_def list_all_iff)

lemma rotated_four_times:
  assumes "rect m rows cols" and "0 < rows" and "0 < cols"
  shows "thenDo (thenDo (thenDo (rotated m) rotated) rotated) rotated = Inr m"
proof -
  let ?H = "map (\<lambda>i. map (\<lambda>j. m ! (rows - 1 - i) ! (cols - 1 - j)) [0..<cols]) [0..<rows]"
  have assoc: "thenDo (thenDo (thenDo (rotated m) rotated) rotated) rotated =
        thenDo (thenDo (rotated m) rotated) (\<lambda>h. thenDo (rotated h) rotated)"
    by (rule thenDo_assoc)
  have "thenDo (thenDo (rotated m) rotated) (\<lambda>h. thenDo (rotated h) rotated) =
          thenDo (rotated ?H) rotated"
    by (subst rotated_twice [OF assms]) simp
  also have "\<dots> = Inr (map (\<lambda>i. map (\<lambda>j. ?H ! (rows - 1 - i) ! (cols - 1 - j)) [0..<cols]) [0..<rows])"
    by (rule rotated_twice [OF rect_half_turn assms(2,3)])
  also have "map (\<lambda>i. map (\<lambda>j. ?H ! (rows - 1 - i) ! (cols - 1 - j)) [0..<cols]) [0..<rows] = m"
    using assms by (auto simp: rect_def list_all_length intro!: nth_equalityI)
  finally show ?thesis unfolding assoc .
qed

lemma tryKicks_spec:
  assumes "int (length (board s)) = BOARD_HEIGHT"
  shows "tryKicks s p rot ks =
           Inr (case find (\<lambda>kick. isValidPosition (board s) rot (currentX s + kick) (currentY s) = Inr True) ks of
                  None \<Rightarrow> s
                | Some kick \<Rightarrow> s\<lparr>currentPiece := Some (p\<lparr>shape := rot\<rparr>),
                                   currentX := currentX s + kick\<rparr>)"
  by (induction ks) (simp_all add: isValidPosition_fits [OF assms])

lemma rotatePiece_spec:
  assumes "int (length (board s)) = BOARD_HEIGHT"
    and "currentPiece s = Some p" and "rotated (shape p) = Inr rot"
  shows "rotatePiece s =
           Inr (case kickChosen s of
                  None \<Rightarrow> s
                | Some kick \<Rightarrow> s\<lparr>currentPiece := Some (p\<lparr>shape := rot\<rparr>),
                                   currentX := currentX s + kick\<rparr>)"
  unfolding rotatePiece_def kickChosen_def kicks_def [symmetric]
  using assms(2,3) by (simp add: tryKicks_spec [OF assms(1)])

lemma rotatePiece_committed:
  assumes "int (length (board s)) = BOARD_HEIGHT"
    and "currentPiece s = Some p" and "rotated (shape p) = Inr rot"
    and "kickChosen s = Some kick" and "rotatePiece s = Inr s'"
  shows "s' = s\<lparr>currentPiece := Some (p\<lparr>shape := rot\<rparr>), currentX := currentX s + kick\<rparr>"
  using rotatePiece_spec [OF assms(1-3)] assms(4,5) by simp

text \<open>
  Claim C6. For a matrix of \<open>rows\<close> rows of \<open>cols\<close> cells each, with at least one row
  and one column (every piece's shape matrix is one), applying the rotation transform
  four times in succession gives back the matrix itself: the same dimensions and the
  same occupied cells. In particular, when four successive rotation attempts on the
  active piece each succeed, at kicks \<open>k0\<close>, \<open>k1\<close>, \<open>k2\<close> and \<open>k3\<close>, the state is the
  original one with only the origin column shifted by the sum of the kicks.
\<close>

theorem four_rotations_identity:
  assumes "rect m rows cols" and "0 < rows" and "0 < cols"
  shows "thenDo (thenDo (thenDo (rotated m) rotated) rotated) rotated = Inr m \<and>
         (\<forall>s0 s1 s2 s3 s4 p k0 k1 k2 k3.
            currentPiece s0 = Some p \<and> shape p = m \<and> int (length (board s0)) = BOARD_HEIGHT \<and>
            rotatePiece s0 = Inr s1 \<and> kickChosen s0 = Some k0 \<and>
            rotatePiece s1 = Inr s2 \<and> kickChosen s1 = Some k1 \<and>
            rotatePiece s2 = Inr s3 \<and> kickChosen s2 = Some k2 \<and>
            rotatePiece s3 = Inr s4 \<and> kickChosen s3 = Some k3
            \<longrightarrow> s4 = s0\<lparr>currentX := currentX s0 + k0 + k1 + k2 + k3\<rparr>)"
proof (intro conjI allI impI)
  show four: "thenDo (thenDo (thenDo (rotated m) rotated) rotated) rotated = Inr m"
    using assms by (rule rotated_four_times)
  fix s0 s1 s2 s3 s4 p k0 k1 k2 k3
  assume a: "currentPiece s0 = Some p \<and> shape p = m \<and> int (length (board s0)) = BOARD_HEIGHT \<and>
            rotatePiece s0 = Inr s1 \<and> kickChosen s0 = Some k0 \<and>
            rotatePiece s1 = Inr s2 \<and> kickChosen s1 = Some k1 \<and>
            rotatePiece s2 = Inr s3 \<and> kickChosen s2 = Some k2 \<and>
            rotatePiece s3 = Inr s4 \<and> kickChosen s3 = Some k3"
  obtain m1 where m1: "rotated m = Inr m1"
    using four by (cases "rotated m") simp_all
  obtain m2 where m2: "rotated m1 = Inr m2"
    using four m1 by (cases "rotated m1") simp_all
  obtain m3 where m3: "rotated m2 = Inr m3"
    using four m1 m2 by (cases "rotated m2") simp_all
  have m4: "rotated m3 = Inr m"
    using four m1 m2 m3 by simp
  have s1: "s1 = s0\<lparr>currentPiece := Some (p\<lparr>shape := m1\<rparr>), currentX := currentX s0 + k0\<rparr>"
    using a m1 by (intro rotatePiece_committed [of s0 p m1 k0 s1]) simp_all
  have s2: "s2 = s1\<lparr>currentPiece := Some (p\<lparr>shape := m2\<rparr>), currentX := currentX s1 + k1\<rparr>"
    using a m2 rotatePiece_committed [of s1 "p\<lparr>shape := m1\<rparr>" m2 k1 s2]
    by (simp add: s1)
  have s3: "s3 = s2\<lparr>currentPiece := Some (p\<lparr>shape := m3\<rparr>), currentX := currentX s2 + k2\<rparr>"
    using a m3 rotatePiece_committed [of s2 "p\<lparr>shape := m2\<rparr>" m3 k2 s3]
    by (simp add: s1 s2)
  have s4: "s4 = s3\<lparr>currentPiece := Some (p\<lparr>shape := m\<rparr>), currentX := currentX s3 + k3\<rparr>"
    using a m4 rotatePiece_committed [of s3 "p\<lparr>shape := m3\<rparr>" m k3 s4]
    by (simp add: s1 s2 s3)
  have "p\<lparr>shape := m\<rparr> = p" using a by simp
  then show "s4 = s0\<lparr>currentX := currentX s0 + k0 + k1 + k2 + k3\<rparr>"
    using a by (simp add: s4 s3 s2 s1)
qed

theorem four_rotations_identity_witness:
  "rect [[1, 0], [1, 1], [1, 0]] 3 2 \<and> (0::nat) < 3 \<and> (0::nat) < 2 \<and>
   thenDo (thenDo (thenDo (rotated [[1, 0], [1, 1], [1, 0]]) rotated) rotated) rotated
     = Inr [[1, 0], [1, 1], [1, 0]] \<and>
   currentPiece kickState = Some (kickPiece [[1, 0], [1, 1], [1, 0]]) \<and>
   int (length (board kickState)) = BOARD_HEIGHT \<and>
   rotatePiece kickState =
     Inr (kickState\<lparr>currentPiece := Some (kickPiece [[1, 1, 1], [0, 1, 0]]), currentX := 7\<rparr>) \<and>
   kickChosen kickState = Some (- 1) \<and>
   rotatePiece (kickState\<lparr>currentPiece := Some (kickPiece [[1, 1, 1], [0, 1, 0]]), currentX := 7\<rparr>) =
     Inr (kickState\<lparr>currentPiece := Some (kickPiece [[0, 1], [1, 1], [0, 1]]), currentX := 7\<rparr>) \<and>
   kickChosen (kickState\<lparr>currentPiece := Some (kickPiece [[1, 1, 1], [0, 1, 0]]), currentX := 7\<rparr>) = Some 0 \<and>
   rotatePiece (kickState\<lparr>currentPiece := Some (kickPiece [[0, 1], [1, 1], [0, 1]]), currentX := 7\<rparr>) =
     Inr (kickState\<lparr>currentPiece := Some (kickPiece [[0, 1, 0], [1, 1, 1]]), currentX := 7\<rparr>) \<and>
   kickChosen (kickState\<lparr>currentPiece := Some (kickPiece [[0, 1], [1, 1], [0, 1]]), currentX := 7\<rparr>) = Some 0 \<and>
   rotatePiece (kickState\<lparr>currentPiece := Some (kickPiece [[0, 1, 0], [1, 1, 1]]), currentX := 7\<rparr>) =
     Inr (kickState\<lparr>currentX := 7\<rparr>) \<and>
   kickChosen (kickState\<lparr>currentPiece := Some (kickPiece [[0, 1, 0], [1, 1, 1]]), currentX := 7\<rparr>) = Some 0 \<and>
   kickState\<lparr>currentX := 7\<rparr> = kickState\<lparr>currentX := currentX kickState + (- 1) + 0 + 0 + 0\<rparr>"
proof -
  have r: "rect [[1, 0], [1, 1], [1, 0]] 3 2" by code_simp
  have four: "thenDo (thenDo (thenDo (rotated [[1, 0], [1, 1], [1, 0]]) rotated) rotated) rotated
     = Inr [[1, 0], [1, 1], [1, 0]]" by code_simp
  have p: "currentPiece kickState = Some (kickPiece [[1, 0], [1, 1], [1, 0]])" by code_simp
  have len: "int (length (board kickState)) = BOARD_HEIGHT" by code_simp
  have r0: "rotatePiece kickState =
     Inr (kickState\<lparr>currentPiece := Some (kickPiece [[1, 1, 1], [0, 1, 0]]), currentX := 7\<rparr>)"
    by code_simp
  have k0: "kickChosen kickState = Some (- 1)" by code_simp
  have r1: "rotatePiece (kickState\<lparr>currentPiece := Some (kickPiece [[1, 1, 1], [0, 1, 0]]), currentX := 7\<rparr>) =
     Inr (kickState\<lparr>currentPiece := Some (kickPiece [[0, 1], [1, 1], [0, 1]]), currentX := 7\<rparr>)"
    by code_simp
  have k1: "kickChosen (kickState\<lparr>currentPiece := Some (kickPiece [[1, 1, 1], [0, 1, 0]]), currentX := 7\<rparr>) = Some 0"
    by code_simp
  have r2: "rotatePiece (kickState\<lparr>currentPiece := Some (kickPiece [[0, 1], [1, 1], [0, 1]]), currentX := 7\<rparr>) =
     Inr (kickState\<lparr>currentPiece := Some (kickPiece [[0, 1, 0], [1, 1, 1]]), currentX := 7\<rparr>)"
    by code_simp
  have k2: "kickChosen (kickState\<lparr>currentPiece := Some (kickPiece [[0, 1], [1, 1], [0, 1]]), currentX := 7\<rparr>) = Some 0"
    by code_simp
  have r3: "rotatePiece (kickState\<lparr>currentPiece := Some (kickPiece [[0, 1, 0], [1, 1, 1]]), currentX := 7\<rparr>) =
     Inr (kickState\<lparr>currentX := 7\<rparr>)"
    by code_simp
  have k3: "kickChosen (kickState\<lparr>currentPiece := Some (kickPiece [[0, 1, 0], [1, 1, 1]]), currentX := 7\<rparr>) = Some 0"
    by code_simp
  have sh: "shape (kickPiece [[1, 0], [1, 1], [1, 0]]) = [[1, 0], [1, 1], [1, 0]]"
    by (simp add: kickPiece_def)
  have "kickState\<lparr>currentX := 7\<rparr> = kickState\<lparr>currentX := currentX kickState + (- 1) + 0 + 0 + 0\<rparr>"
    using four_rotations_identity [OF r, THEN conjunct2, rule_format,
            of kickState "kickPiece [[1, 0], [1, 1], [1, 0]]" _ "- 1" _ 0 _ 0 _ 0]
          p len r0 k0 r1 k1 r2 k2 r3 k3 sh
    by simp
  then show ?thesis
    using r four p len r0 k0 r1 k1 r2 k2 r3 k3 by simp
qed

section \<open>The state between events\<close>

lemma cells_nonempty_iff:
  "cells m \<noteq> [] \<longleftrightarrow> (\<exists>row col. row < length m \<and> col < length (m ! row) \<and> m ! row ! col \<noteq> 0)"
proof -
  have "cells m \<noteq> [] \<longleftrightarrow> set (cells m) \<noteq> {}" by simp
  then show ?thesis unfolding set_cells by auto
qed

lemma shapeOk_rotated:
  assumes "shapeOk m"
  shows "\<exists>rot. rotated m = Inr rot \<and> shapeOk rot"
proof -
  define rows where "rows = length m"
  define cols where "cols = length (hd m)"
  have r: "rect m rows cols" and pos: "0 < rows" "rows \<le> 4" "0 < cols" "cols \<le> 4"
    using assms by (auto simp: shapeOk_def rows_def cols_def)
  let ?R = "map (\<lambda>c. map (\<lambda>j. m ! (rows - 1 - j) ! c) [0..<rows]) [0..<cols]"
  have rot: "rotated m = Inr ?R"
    using r pos(1) by (rule rotated_rect)
  obtain i j where ij: "i < length m" "j < length (m ! i)" "m ! i ! j \<noteq> 0"
    using assms by (auto simp: shapeOk_def cells_nonempty_iff)
  have jc: "j < cols" and ir: "i < rows"
    using ij r by (auto simp: rect_def list_all_length)
  have "j < length ?R \<and> rows - 1 - i < length (?R ! j) \<and> ?R ! j ! (rows - 1 - i) \<noteq> 0"
    using ij jc ir by simp
  then have c: "cells ?R \<noteq> []"
    unfolding cells_nonempty_iff by blast
  have "hd ?R = ?R ! 0" using pos by (simp add: hd_conv_nth)
  then have hd: "length (hd ?R) = rows" using pos by simp
  have "shapeOk ?R"
    unfolding shapeOk_def hd using pos c rect_rotated [of m rows cols] by simp
  then show ?thesis using rot by blast
qed

lemma movePiece_spec:
  assumes "int (length (board s)) = BOARD_HEIGHT" and "currentPiece s = Some p"
  shows "movePiece dx dy s =
           Inr (if isValidPosition (board s) (shape p) (currentX s + dx) (currentY s + dy) = Inr True
                then (True, s\<lparr>currentX := currentX s + dx, currentY := currentY s + dy\<rparr>)
                else (False, s))"
  using assms(2) by (simp add: movePiece_def isValidPosition_fits [OF assms(1)])

lemma fits_below_floor:
  assumes "fits b m x y" and "cells m \<noteq> []"
  shows "y < BOARD_HEIGHT"
proof -
  obtain row col where "(row, col) \<in> set (cells m)"
    using assms(2) by (cases "cells m") auto
  then have "\<not> collides b (y + int row) (x + int col)"
    using assms(1) by (auto simp: fits_def list_all_iff)
  then show ?thesis by (simp add: collides_def)
qed

lemma placed_fits:
  "int (length (board s)) = BOARD_HEIGHT \<Longrightarrow> currentPiece s = Some p \<Longrightarrow>
   placed s \<longleftrightarrow> fits (board s) (shape p) (currentX s) (currentY s)"
  by (simp add: placed_def isValidPosition_fits)

lemma dropLoop_spec:
  assumes "int (length (board s)) = BOARD_HEIGHT" and "currentPiece s = Some p"
    and "cells (shape p) \<noteq> []" and "placed s" and "n = nat (BOARD_HEIGHT - currentY s)"
  shows "\<exists>y. dropLoop s = Some (Inr (s\<lparr>currentY := y\<rparr>)) \<and>
             dropWithin n s = Some (Inr (s\<lparr>currentY := y\<rparr>)) \<and>
             currentY s \<le> y \<and> y < BOARD_HEIGHT \<and>
             placed (s\<lparr>currentY := y\<rparr>) \<and>
             isValidPosition (board s) (shape p) (currentX s) (y + 1) = Inr False"
  using assms
proof (induction n arbitrary: s)
  case 0
  then have "fits (board s) (shape p) (currentX s) (currentY s)"
    by (simp add: placed_fits)
  then have "currentY s < BOARD_HEIGHT"
    using "0.prems"(3) by (rule fits_below_floor)
  then show ?case using "0.prems"(5) by simp
next
  case (Suc n)
  note len = Suc.prems(1) and p = Suc.prems(2)
  have mv: "movePiece 0 1 s =
           Inr (if isValidPosition (board s) (shape p) (currentX s) (currentY s + 1) = Inr True
                then (True, s\<lparr>currentY := currentY s + 1\<rparr>)
                else (False, s))"
    using movePiece_spec [OF len p, of 0 1] by simp
  have below: "currentY s < BOARD_HEIGHT"
    using Suc.prems(5) by simp
  show ?case
  proof (cases "isValidPosition (board s) (shape p) (currentX s) (currentY s + 1) = Inr True")
    case True
    let ?s = "s\<lparr>currentY := currentY s + 1\<rparr>"
    have "\<exists>y. dropLoop ?s = Some (Inr (?s\<lparr>currentY := y\<rparr>)) \<and>
             dropWithin n ?s = Some (Inr (?s\<lparr>currentY := y\<rparr>)) \<and>
             currentY ?s \<le> y \<and> y < BOARD_HEIGHT \<and>
             placed (?s\<lparr>currentY := y\<rparr>) \<and>
             isValidPosition (board ?s) (shape p) (currentX ?s) (y + 1) = Inr False"
      using Suc.prems True by (intro Suc.IH) (simp_all add: placed_def)
    then obtain y where y: "dropLoop ?s = Some (Inr (s\<lparr>currentY := y\<rparr>))"
        "dropWithin n ?s = Some (Inr (s\<lparr>currentY := y\<rparr>))"
        "currentY s + 1 \<le> y" "y < BOARD_HEIGHT" "placed (s\<lparr>currentY := y\<rparr>)"
        "isValidPosition (board s) (shape p) (currentX s) (y + 1) = Inr False"
      by auto
    have "dropLoop s = dropLoop ?s"
      by (subst dropLoop.simps) (simp add: mv True)
    moreover have "dropWithin (Suc n) s = dropWithin n ?s"
      by (simp add: mv True)
    ultimately show ?thesis using y by (intro exI [of _ y]) simp
  next
    case False
    then have f: "isValidPosition (board s) (shape p) (currentX s) (currentY s + 1) = Inr False"
      using isValidPosition_fits [OF len] by simp
    have "dropLoop s = Some (Inr s)"
      by (subst dropLoop.simps) (simp add: mv False)
    moreover have "dropWithin (Suc n) s = Some (Inr s)"
      by (simp add: mv False)
    ultimately show ?thesis
      using f below Suc.prems(4) by (intro exI [of _ "currentY s"]) simp
  qed
qed

lemma writeCell_inside:
  assumes "dims b" and "0 \<le> r" and "r < BOARD_HEIGHT" and "0 \<le> c" and "c < BOARD_WIDTH"
  shows "writeCell b r c p = Inr (b[nat r := (b ! nat r)[nat c := Filled p]])"
    and "dims (b[nat r := (b ! nat r)[nat c := Filled p]])"
proof -
  have r: "nat r < length b" using assms by (simp add: dims_def nat_less_iff)
  then have "int (length (b ! nat r)) = BOARD_WIDTH"
    using assms(1) by (simp add: dims_def list_all_length)
  then have c: "nat c < length (b ! nat r)" using assms by (simp add: nat_less_iff)
  show "writeCell b r c p = Inr (b[nat r := (b ! nat r)[nat c := Filled p]])"
    using r c assms by (simp add: writeCell_def Let_def)
  show "dims (b[nat r := (b ! nat r)[nat c := Filled p]])"
    using assms(1) r by (auto simp: dims_def list_all_length nth_list_update)
qed

lemma lockCols_spec:
  assumes "dims b"
    and "\<forall>i<length vs. vs ! i \<noteq> 0 \<longrightarrow>
           0 \<le> boardY \<and> boardY < BOARD_HEIGHT \<and> 0 \<le> x + int (col + i) \<and> x + int (col + i) < BOARD_WIDTH"
  shows "\<exists>b'. lockCols p x boardY vs col b = Inr b' \<and> dims b' \<and>
              (\<forall>i<length b. i \<noteq> nat boardY \<longrightarrow> b' ! i = b ! i)"
  using assms
proof (induction vs arbitrary: col b)
  case Nil
  then show ?case by simp
next
  case (Cons v vs)
  have rest: "\<forall>i<length vs. vs ! i \<noteq> 0 \<longrightarrow>
           0 \<le> boardY \<and> boardY < BOARD_HEIGHT \<and> 0 \<le> x + int (Suc col + i) \<and> x + int (Suc col + i) < BOARD_WIDTH"
    using Cons.prems(2) by (auto dest: spec [of _ "Suc i" for i])
  show ?case
  proof (cases "v \<noteq> 0")
    case False
    then show ?thesis using Cons.IH [OF Cons.prems(1) rest] by simp
  next
    case True
    with Cons.prems(2) have in_range:
      "0 \<le> boardY" "boardY < BOARD_HEIGHT" "0 \<le> x + int col" "x + int col < BOARD_WIDTH"
      by (auto dest: spec [of _ 0])
    let ?b = "b[nat boardY := (b ! nat boardY)[nat (x + int col) := Filled p]]"
    note w = writeCell_inside [OF Cons.prems(1) in_range, of p]
    obtain b' where b': "lockCols p x boardY vs (Suc col) ?b = Inr b'" "dims b'"
        "\<forall>i<length ?b. i \<noteq> nat boardY \<longrightarrow> b' ! i = ?b ! i"
      using Cons.IH [OF w(2) rest] by blast
    have "lockCols p x boardY (v # vs) col b = Inr b'"
      using True in_range by (simp add: w(1) b'(1))
    moreover have "\<forall>i<length b. i \<noteq> nat boardY \<longrightarrow> b' ! i = b ! i"
      using b'(3) by simp
    ultimately show ?thesis using b'(2) by blast
  qed
qed

lemma lockRows_spec:
  assumes "dims b" and "0 \<le> y"
    and "\<forall>i<length rs. \<forall>j<length (rs ! i). rs ! i ! j \<noteq> 0 \<longrightarrow>
           y + int (row + i) < BOARD_HEIGHT \<and> 0 \<le> x + int j \<and> x + int j < BOARD_WIDTH"
  shows "\<exists>b'. lockRows p x y rs row b = Inr b' \<and> dims b' \<and>
              (\<forall>i<length b. i < nat y + row \<or> nat y + row + length rs \<le> i \<longrightarrow> b' ! i = b ! i)"
  using assms
proof (induction rs arbitrary: row b)
  case Nil
  then show ?case by simp
next
  case (Cons r rs)
  have first: "\<forall>i<length r. r ! i \<noteq> 0 \<longrightarrow>
           0 \<le> y + int row \<and> y + int row < BOARD_HEIGHT \<and> 0 \<le> x + int (0 + i) \<and> x + int (0 + i) < BOARD_WIDTH"
  proof (intro allI impI)
    fix i assume "i < length r" "r ! i \<noteq> 0"
    then show "0 \<le> y + int row \<and> y + int row < BOARD_HEIGHT \<and> 0 \<le> x + int (0 + i) \<and>
               x + int (0 + i) < BOARD_WIDTH"
      using Cons.prems(2) Cons.prems(3) [rule_format, of 0 i] by simp
  qed
  have rest: "\<forall>i<length rs. \<forall>j<length (rs ! i). rs ! i ! j \<noteq> 0 \<longrightarrow>
           y + int (Suc row + i) < BOARD_HEIGHT \<and> 0 \<le> x + int j \<and> x + int j < BOARD_WIDTH"
  proof (intro allI impI)
    fix i j assume "i < length rs" "j < length (rs ! i)" "rs ! i ! j \<noteq> 0"
    then show "y + int (Suc row + i) < BOARD_HEIGHT \<and> 0 \<le> x + int j \<and> x + int j < BOARD_WIDTH"
      using Cons.prems(3) [rule_format, of "Suc i" j] by simp
  qed
  obtain b1 where b1: "lockCols p x (y + int row) r 0 b = Inr b1" "dims b1"
      "\<forall>i<length b. i \<noteq> nat (y + int row) \<longrightarrow> b1 ! i = b ! i"
    using lockCols_spec [OF Cons.prems(1) first] by blast
  obtain b' where b': "lockRows p x y rs (Suc row) b1 = Inr b'" "dims b'"
      "\<forall>i<length b1. i < nat y + Suc row \<or> nat y + Suc row + length rs \<le> i \<longrightarrow> b' ! i = b1 ! i"
    using Cons.IH [OF b1(2) Cons.prems(2) rest] by blast
  have len: "length b1 = length b"
    using b1(2) Cons.prems(1) by (simp add: dims_def)
  have ny: "nat (y + int row) = nat y + row"
    using Cons.prems(2) by (simp add: nat_add_distrib)
  have "lockRows p x y (r # rs) row b = Inr b'"
    by (simp add: b1(1) b'(1))
  moreover have "\<forall>i<length b. i < nat y + row \<or> nat y + row + length (r # rs) \<le> i \<longrightarrow> b' ! i = b ! i"
    using b'(3) b1(3) len ny by auto
  ultimately show ?case using b'(2) by blast
qed

lemma lockPiece_spec:
  assumes "dims (board s)" and "currentPiece s = Some p" and "0 \<le> currentY s" and "placed s"
  shows "\<exists>b'. lockPiece s = Inr (s\<lparr>board := b'\<rparr>) \<and> dims b' \<and>
              (\<forall>i<length (board s).
                  i < nat (currentY s) \<or> nat (currentY s) + length (shape p) \<le> i
                  \<longrightarrow> b' ! i = board s ! i)"
proof -
  have len: "int (length (board s)) = BOARD_HEIGHT"
    using assms(1) by (simp add: dims_def)
  have f: "fits (board s) (shape p) (currentX s) (currentY s)"
    using assms(4) by (simp add: placed_fits [OF len assms(2)])
  have cellsOk: "\<forall>i<length (shape p). \<forall>j<length (shape p ! i). shape p ! i ! j \<noteq> 0 \<longrightarrow>
           currentY s + int (0 + i) < BOARD_HEIGHT \<and> 0 \<le> currentX s + int j \<and>
           currentX s + int j < BOARD_WIDTH"
  proof (intro allI impI)
    fix i j assume "i < length (shape p)" "j < length (shape p ! i)" "shape p ! i ! j \<noteq> 0"
    then have "\<not> collides (board s) (currentY s + int i) (currentX s + int j)"
      using f by (simp add: fits_iff)
    then show "currentY s + int (0 + i) < BOARD_HEIGHT \<and> 0 \<le> currentX s + int j \<and>
           currentX s + int j < BOARD_WIDTH"
      by (simp add: collides_def)
  qed
  obtain b' where b': "lockRows p (currentX s) (currentY s) (shape p) 0 (board s) = Inr b'"
      "dims b'"
      "\<forall>i<length (board s). i < nat (currentY s) + 0 \<or> nat (currentY s) + 0 + length (shape p) \<le> i
         \<longrightarrow> b' ! i = board s ! i"
    using lockRows_spec [OF assms(1,3) cellsOk] by blast
  have "lockPiece s = Inr (s\<lparr>board := b'\<rparr>)"
    using assms(2) by (simp add: lockPiece_def b'(1))
  then show ?thesis using b'(2,3) by auto
qed

lemma few_full_rows:
  assumes "length b' = length b" and "list_all (\<lambda>r. \<not> rowFull r) b"
    and "\<forall>i<length b. i < lo \<or> lo + n \<le> i \<longrightarrow> b' ! i = b ! i"
  shows "length (filter rowFull b') \<le> n"
proof -
  have "{i. i < length b' \<and> rowFull (b' ! i)} \<subseteq> {lo..<lo + n}"
  proof
    fix i assume "i \<in> {i. i < length b' \<and> rowFull (b' ! i)}"
    then have i: "i < length b" "rowFull (b' ! i)" using assms(1) by auto
    have "\<not> rowFull (b ! i)" using assms(2) i(1) by (simp add: list_all_length)
    then have "b' ! i \<noteq> b ! i" using i(2) by auto
    then have "\<not> (i < lo \<or> lo + n \<le> i)" using assms(3) i(1) by blast
    then show "i \<in> {lo..<lo + n}" by auto
  qed
  then have "card {i. i < length b' \<and> rowFull (b' ! i)} \<le> card {lo..<lo + n}"
    by (intro card_mono) auto
  then show ?thesis by (simp add: length_filter_conv_card)
qed

lemma applyScore_fields [simp]:
  "board (applyScore k s) = board s"
  "currentPiece (applyScore k s) = currentPiece s"
  "currentX (applyScore k s) = currentX s"
  "currentY (applyScore k s) = currentY s"
  "nextPieceIndex (applyScore k s) = nextPieceIndex s"
  "gameRunning (applyScore k s) = gameRunning s"
  "gamePaused (applyScore k s) = gamePaused s"
  "highScore (applyScore k s) = highScore s"
  "highScoreFile (applyScore k s) = highScoreFile s"
  "exited (applyScore k s) = exited s"
  "lines (applyScore k s) = lines s + int k"
  by (simp_all add: applyScore_def)

lemma applyScore_level:
  "level s = lines s div 10 + 1 \<Longrightarrow>
   level (applyScore k s) = lines (applyScore k s) div 10 + 1"
  by (simp add: applyScore_def)

lemma saveHighScore_fields [simp]:
  "board (saveHighScore s) = board s"
  "currentPiece (saveHighScore s) = currentPiece s"
  "currentX (saveHighScore s) = currentX s"
  "currentY (saveHighScore s) = currentY s"
  "nextPieceIndex (saveHighScore s) = nextPieceIndex s"
  "gameRunning (saveHighScore s) = gameRunning s"
  "gamePaused (saveHighScore s) = gamePaused s"
  "highScore (saveHighScore s) = highScore s"
  "score (saveHighScore s) = score s"
  "lines (saveHighScore s) = lines s"
  "level (saveHighScore s) = level s"
  "exited (saveHighScore s) = exited s"
  by (simp_all add: saveHighScore_def)

lemma clearLines_boardOk:
  assumes "dims (board s)"
  shows "clearLines s =
           Inr (Undefined, applyScore (length (filter rowFull (board s)))
                  (s\<lparr>board := replicate (length (filter rowFull (board s))) emptyRow @
                                filter (\<lambda>r. \<not> rowFull r) (board s)\<rparr>))"
    and "boardOk (replicate (length (filter rowFull (board s))) emptyRow @
                  filter (\<lambda>r. \<not> rowFull r) (board s))"
proof -
  have len: "int (length (board s)) = BOARD_HEIGHT"
    using assms by (simp add: dims_def)
  show "clearLines s =
           Inr (Undefined, applyScore (length (filter rowFull (board s)))
                  (s\<lparr>board := replicate (length (filter rowFull (board s))) emptyRow @
                                filter (\<lambda>r. \<not> rowFull r) (board s)\<rparr>))"
    using len by (rule clearLines_general)
  have "length (filter rowFull (board s)) + length (filter (\<lambda>r. \<not> rowFull r) (board s))
          = length (board s)"
    by (rule sum_length_filter_compl)
  moreover have "int (length emptyRow) = BOARD_WIDTH"
    by (simp add: emptyRow_def BOARD_WIDTH_def)
  ultimately show "boardOk (replicate (length (filter rowFull (board s))) emptyRow @
                  filter (\<lambda>r. \<not> rowFull r) (board s))"
    using assms
    by (auto simp: boardOk_def dims_def list_all_iff not_rowFull_emptyRow)
qed

lemma PIECES_shapeOk: "list_all (\<lambda>p. shapeOk (shape p)) PIECES"
  by code_simp

lemma piece_shapeOk: "i < length PIECES \<Longrightarrow> shapeOk (shape (PIECES ! i))"
  using PIECES_shapeOk by (simp add: list_all_length)

lemma spawnPiece_spec:
  assumes "int (length (board s)) = BOARD_HEIGHT"
    and "i = (if nextPieceIndex s = - 1 then int r0 else nextPieceIndex s)"
    and "0 \<le> i" and "i < int (length PIECES)"
  shows "spawnPiece r0 r1 s =
           Inr (if isValidPosition (board s) (shape (PIECES ! nat i))
                     ((BOARD_WIDTH - int (length (hd (shape (PIECES ! nat i))))) div 2) 0 = Inr True
                then (True, s\<lparr>nextPieceIndex := int r1, currentPiece := Some (PIECES ! nat i),
                               currentX := (BOARD_WIDTH - int (length (hd (shape (PIECES ! nat i))))) div 2,
                               currentY := 0\<rparr>)
                else (False, gameOver (s\<lparr>nextPieceIndex := int r1, currentPiece := Some (PIECES ! nat i),
                               currentX := (BOARD_WIDTH - int (length (hd (shape (PIECES ! nat i))))) div 2,
                               currentY := 0\<rparr>)))"
proof -
  have "nat i < length PIECES" using assms(3,4) by simp
  then have "shapeOk (shape (PIECES ! nat i))" by (rule piece_shapeOk)
  then obtain r rs where sh: "shape (PIECES ! nat i) = r # rs"
    by (cases "shape (PIECES ! nat i)") (auto simp: shapeOk_def)
  show ?thesis
    using assms(3,4) assms(2) [symmetric]
    by (simp add: spawnPiece_def Let_def sh isValidPosition_fits [OF assms(1)])
qed

lemma spawnPiece_stateOk:
  assumes "boardOk (board s)" and "0 \<le> lines s" and "level s = lines s div 10 + 1"
    and "i = (if nextPieceIndex s = - 1 then int r0 else nextPieceIndex s)"
    and "0 \<le> i" and "i < int (length PIECES)" and "r1 < length PIECES"
  shows "\<exists>ok s'. spawnPiece r0 r1 s = Inr (ok, s') \<and> stateOk s'"
proof -
  have len: "int (length (board s)) = BOARD_HEIGHT"
    using assms(1) by (simp add: boardOk_def dims_def)
  have sh: "shapeOk (shape (PIECES ! nat i))"
    using assms(5,6) by (intro piece_shapeOk) simp
  show ?thesis
    unfolding spawnPiece_spec [OF len assms(4,5,6)]
    using assms(1,2,3,7) sh
    by (auto simp: stateOk_def placed_def gameOver_def)
qed

lemma find_Some_holds: "find P xs = Some x \<Longrightarrow> P x"
  by (induction xs) (auto split: if_splits)

lemma stateOk_piece:
  assumes "stateOk s"
  obtains p where "currentPiece s = Some p" and "shapeOk (shape p)"
  using assms by (cases "currentPiece s") (auto simp: stateOk_def)

lemma stateOk_len: "stateOk s \<Longrightarrow> int (length (board s)) = BOARD_HEIGHT"
  by (simp add: stateOk_def boardOk_def dims_def)

lemma lock_then_clear:
  assumes "stateOk s" and "placed s"
  shows "\<exists>b'. lockPiece s = Inr (s\<lparr>board := b'\<rparr>) \<and> dims b' \<and>
              length (filter rowFull b') \<le> 4 \<and>
              clearLines (s\<lparr>board := b'\<rparr>) =
                Inr (Undefined, applyScore (length (filter rowFull b'))
                       (s\<lparr>board := replicate (length (filter rowFull b')) emptyRow @
                                     filter (\<lambda>r. \<not> rowFull r) b'\<rparr>)) \<and>
              boardOk (replicate (length (filter rowFull b')) emptyRow @
                       filter (\<lambda>r. \<not> rowFull r) b')"
proof -
  obtain p where p: "currentPiece s = Some p" "shapeOk (shape p)"
    using assms(1) by (rule stateOk_piece)
  have d: "dims (board s)" and nofull: "list_all (\<lambda>r. \<not> rowFull r) (board s)"
    and y: "0 \<le> currentY s"
    using assms(1) by (simp_all add: stateOk_def boardOk_def)
  obtain b' where b': "lockPiece s = Inr (s\<lparr>board := b'\<rparr>)" "dims b'"
      "\<forall>i<length (board s).
          i < nat (currentY s) \<or> nat (currentY s) + length (shape p) \<le> i
          \<longrightarrow> b' ! i = board s ! i"
    using lockPiece_spec [OF d p(1) y assms(2)] by blast
  have "length b' = length (board s)"
    using b'(2) d by (simp add: dims_def)
  then have "length (filter rowFull b') \<le> length (shape p)"
    using nofull b'(3) by (rule few_full_rows)
  then have few: "length (filter rowFull b') \<le> 4"
    using p(2) by (simp add: shapeOk_def)
  have d': "dims (board (s\<lparr>board := b'\<rparr>))" using b'(2) by simp
  show ?thesis
    using b'(1,2) few clearLines_boardOk [OF d'] by (intro exI [of _ b']) simp
qed

lemma lockClearSpawn_stateOk:
  assumes "stateOk s" and "placed s" and "r1 < length PIECES"
  shows "\<exists>ok s'. lockClearSpawn r0 r1 s = Inr (ok, s') \<and> stateOk s'"
proof -
  obtain b' where b': "lockPiece s = Inr (s\<lparr>board := b'\<rparr>)"
      "clearLines (s\<lparr>board := b'\<rparr>) =
                Inr (Undefined, applyScore (length (filter rowFull b'))
                       (s\<lparr>board := replicate (length (filter rowFull b')) emptyRow @
                                     filter (\<lambda>r. \<not> rowFull r) b'\<rparr>))"
      "boardOk (replicate (length (filter rowFull b')) emptyRow @
                       filter (\<lambda>r. \<not> rowFull r) b')"
    using lock_then_clear [OF assms(1,2)] by blast
  let ?s = "applyScore (length (filter rowFull b'))
                       (s\<lparr>board := replicate (length (filter rowFull b')) emptyRow @
                                     filter (\<lambda>r. \<not> rowFull r) b'\<rparr>)"
  have run: "lockClearSpawn r0 r1 s = spawnPiece r0 r1 ?s"
    by (simp add: lockClearSpawn_def b'(1,2))
  have "boardOk (board ?s)" using b'(3) by simp
  moreover have "0 \<le> lines ?s" using assms(1) by (simp add: stateOk_def)
  moreover have "level ?s = lines ?s div 10 + 1"
    using assms(1) by (intro applyScore_level) (simp add: stateOk_def)
  moreover have "nextPieceIndex s = (if nextPieceIndex ?s = - 1 then int r0 else nextPieceIndex ?s)"
    "0 \<le> nextPieceIndex s" "nextPieceIndex s < int (length PIECES)"
    using assms(1) by (auto simp: stateOk_def)
  ultimately show ?thesis
    unfolding run using assms(3) by (rule spawnPiece_stateOk)
qed

lemma movePiece_stateOk:
  assumes "stateOk s" and "0 \<le> dy"
  shows "\<exists>ok s'. movePiece dx dy s = Inr (ok, s') \<and> stateOk s' \<and>
                 (\<not> ok \<longrightarrow> s' = s) \<and> (ok \<longrightarrow> placed s') \<and> gameRunning s' = gameRunning s"
proof -
  obtain p where p: "currentPiece s = Some p" "shapeOk (shape p)"
    using assms(1) by (rule stateOk_piece)
  show ?thesis
    unfolding movePiece_spec [OF stateOk_len [OF assms(1)] p(1)]
    using assms p by (auto simp: stateOk_def placed_def)
qed

lemma rotatePiece_stateOk:
  assumes "stateOk s"
  shows "\<exists>s'. rotatePiece s = Inr s' \<and> stateOk s' \<and> gameRunning s' = gameRunning s"
proof -
  obtain p where p: "currentPiece s = Some p" "shapeOk (shape p)"
    using assms(1) by (rule stateOk_piece)
  obtain rot where rot: "rotated (shape p) = Inr rot" "shapeOk rot"
    using shapeOk_rotated [OF p(2)] by blast
  note spec = rotatePiece_spec [OF stateOk_len [OF assms] p(1) rot(1)]
  show ?thesis
  proof (cases "kickChosen s")
    case None
    then show ?thesis using spec assms by simp
  next
    case (Some kick)
    then have "find (\<lambda>kick. isValidPosition (board s) rot (currentX s + kick) (currentY s) = Inr True)
                 [0, - 1, 1, - 2, 2] = Some kick"
      using p(1) rot(1) by (simp add: kickChosen_def del: find.simps)
    then have "isValidPosition (board s) rot (currentX s + kick) (currentY s) = Inr True"
      by (rule find_Some_holds)
    then show ?thesis
      using spec Some assms rot(2) by (simp add: stateOk_def placed_def)
  qed
qed

lemma hardDrop_stateOk:
  assumes "stateOk s" and "placed s" and "r1 < length PIECES"
  shows "\<exists>s'. hardDrop r0 r1 s = Some (Inr s') \<and> stateOk s'"
proof -
  obtain p where p: "currentPiece s = Some p" "shapeOk (shape p)"
    using assms(1) by (rule stateOk_piece)
  have c: "cells (shape p) \<noteq> []" using p(2) by (simp add: shapeOk_def)
  obtain y where y: "dropLoop s = Some (Inr (s\<lparr>currentY := y\<rparr>))" "currentY s \<le> y"
      "placed (s\<lparr>currentY := y\<rparr>)"
    using dropLoop_spec [OF stateOk_len [OF assms(1)] p(1) c assms(2) refl] by blast
  have ok: "stateOk (s\<lparr>currentY := y\<rparr>)"
    using assms(1) y(2,3) p(1) by (simp add: stateOk_def)
  obtain ok' s' where "lockClearSpawn r0 r1 (s\<lparr>currentY := y\<rparr>) = Inr (ok', s')" "stateOk s'"
    using lockClearSpawn_stateOk [OF ok y(3) assms(3)] by blast
  then show ?thesis by (simp add: hardDrop_def y(1))
qed

lemma gameTick_stateOk:
  assumes "stateOk s" and "r1 < length PIECES"
  shows "\<exists>s'. gameTick r0 r1 s = Inr s' \<and> stateOk s'"
proof (cases "\<not> gameRunning s \<or> gamePaused s")
  case True
  then show ?thesis using assms(1) by (simp add: gameTick_def)
next
  case False
  then have pl: "placed s" using assms(1) by (simp add: stateOk_def)
  obtain ok s1 where m: "movePiece 0 1 s = Inr (ok, s1)" "stateOk s1" "\<not> ok \<longrightarrow> s1 = s"
    using movePiece_stateOk [OF assms(1), of 1 0] by auto
  show ?thesis
  proof (cases ok)
    case True
    then show ?thesis using False m by (simp add: gameTick_def)
  next
    case no: False
    then have "s1 = s" using m(3) by simp
    then obtain ok' s' where "lockClearSpawn r0 r1 s1 = Inr (ok', s')" "stateOk s'"
      using lockClearSpawn_stateOk [OF assms(1) pl assms(2)] by blast
    then show ?thesis using False m no by (simp add: gameTick_def)
  qed
qed

lemma boardOk_initBoard: "boardOk initBoard"
  by (simp add: boardOk_def dims_def initBoard_def emptyRow_def BOARD_HEIGHT_def BOARD_WIDTH_def
        list_all_iff rowFull_def)

lemma initGame_stateOk:
  assumes "r0 < length PIECES" and "r1 < length PIECES"
  shows "\<exists>s'. initGame r0 r1 s = Inr s' \<and> stateOk s'"
proof -
  let ?s = "s\<lparr>board := initBoard, score := Num 0, lines := 0, level := 1,
               nextPieceIndex := - 1, gameRunning := True, gamePaused := False\<rparr>"
  have "\<exists>ok s'. spawnPiece r0 r1 ?s = Inr (ok, s') \<and> stateOk s'"
    using assms by (intro spawnPiece_stateOk [where i = "int r0"]) (simp_all add: boardOk_initBoard)
  then show ?thesis by (auto simp: initGame_def)
qed

lemma quitGame_stateOk: "stateOk s \<Longrightarrow> stateOk (quitGame s)"
  by (simp add: stateOk_def quitGame_def)

lemma handleInput_stateOk:
  assumes "stateOk s" and "r0 < length PIECES" and "r1 < length PIECES"
  shows "\<exists>s'. handleInput name r0 r1 s = Some (Inr s') \<and> stateOk s'"
proof (cases "gameRunning s")
  case False
  then show ?thesis
    using assms(1) initGame_stateOk [OF assms(2,3), of s] by (auto simp: handleInput_def)
next
  case True
  then have pl: "placed s" using assms(1) by (simp add: stateOk_def)
  have pause: "stateOk (s\<lparr>gamePaused := \<not> gamePaused s\<rparr>)"
    using assms(1) by (auto simp: stateOk_def placed_def split: option.splits)
  have mv: "\<exists>s'. thenDo (movePiece dx 0 s) (\<lambda>(moved, s'). Inr s') = Inr s' \<and> stateOk s'" for dx
    using movePiece_stateOk [OF assms(1), of 0 dx] by auto
  have down: "\<exists>s'. thenDo (movePiece 0 1 s)
                (\<lambda>(moved, s1).
                   if \<not> moved
                   then thenDo (lockClearSpawn r0 r1 s1) (\<lambda>(ok, s2). Inr s2)
                   else Inr s1) = Inr s' \<and> stateOk s'"
  proof -
    obtain ok s1 where m: "movePiece 0 1 s = Inr (ok, s1)" "stateOk s1" "\<not> ok \<longrightarrow> s1 = s"
      using movePiece_stateOk [OF assms(1), of 1 0] by auto
    show ?thesis
    proof (cases ok)
      case True
      then show ?thesis using m by simp
    next
      case no: False
      then have "s1 = s" using m(3) by simp
      then obtain ok' s' where "lockClearSpawn r0 r1 s1 = Inr (ok', s')" "stateOk s'"
        using lockClearSpawn_stateOk [OF assms(1) pl assms(3)] by blast
      then show ?thesis using m no by simp
    qed
  qed
  show ?thesis
    unfolding handleInput_def
    using True assms(1) pause mv [of "- 1"] mv [of 1] down rotatePiece_stateOk [OF assms(1)]
      hardDrop_stateOk [OF assms(1) pl assms(3), of r0] quitGame_stateOk [OF assms(1)]
    by (simp del: One_nat_def) blast
qed

lemma step_stateOk:
  assumes "stateOk s" and "drawsOk e"
  shows "\<exists>s'. step e s = Some (Inr s') \<and> stateOk s'"
proof (cases e)
  case (Keypress name r0 r1)
  then show ?thesis using assms handleInput_stateOk [of s r0 r1 name] by simp
next
  case (Tick r0 r1)
  then show ?thesis using assms gameTick_stateOk [of s r1 r0] by simp
next
  case Sigint
  then show ?thesis using assms quitGame_stateOk by simp
qed

lemma run_stateOk:
  assumes "stateOk s" and "list_all drawsOk evs"
  shows "\<exists>s'. run evs s = Some (Inr s') \<and> stateOk s'"
  using assms
proof (induction evs arbitrary: s)
  case Nil
  then show ?case by simp
next
  case (Cons e evs)
  show ?case
  proof (cases "exited s")
    case True
    then show ?thesis using Cons.prems(1) by simp
  next
    case False
    obtain s1 where s1: "step e s = Some (Inr s1)" "stateOk s1"
      using step_stateOk [of s e] Cons.prems by auto
    then show ?thesis
      using False Cons.IH [OF s1(2)] Cons.prems(2) by simp
  qed
qed

section \<open>Properties of the running game\<close>

lemma reachable_stateOk:
  assumes "r0 < length PIECES" and "r1 < length PIECES" and "list_all drawsOk evs"
  obtains s1 s where "initGame r0 r1 s0 = Inr s1" and "run evs s1 = Some (Inr s)" and "stateOk s"
proof -
  obtain s1 where s1: "initGame r0 r1 s0 = Inr s1" "stateOk s1"
    using initGame_stateOk [OF assms(1,2)] by blast
  obtain s where "run evs s1 = Some (Inr s)" "stateOk s"
    using run_stateOk [OF s1(2) assms(3)] by blast
  then show ?thesis using s1(1) that by blast
qed

text \<open>
  Claim C3. A game is started by \<open>initGame\<close> from any state and driven by any sequence
  of key presses, timer ticks and interrupts (moves, rotations, soft drops, hard drops,
  gravity ticks with their locks, line clears and respawns, pauses, restarts); every
  handler returns, none raises. In the state reached, if the game is running, there is
  an active piece, each of its occupied cells has a column in \<open>[0, BOARD_WIDTH)\<close> and a
  row below \<open>BOARD_HEIGHT\<close>, and no cell with a row \<open>\<ge> 0\<close> lies on an occupied board
  cell. The states are those between two events: a lock, its line clear and the respawn
  are one uninterrupted statement sequence.
\<close>

theorem active_piece_always_valid:
  assumes "r0 < length PIECES" and "r1 < length PIECES" and "list_all drawsOk evs"
  shows "\<exists>s1 s. initGame r0 r1 s0 = Inr s1 \<and> run evs s1 = Some (Inr s) \<and>
           (gameRunning s \<longrightarrow>
              currentPiece s \<noteq> None \<and>
              (\<forall>(r, c) \<in> set (activeCells s).
                  0 \<le> c \<and> c < BOARD_WIDTH \<and> r < BOARD_HEIGHT \<and>
                  \<not> (0 \<le> r \<and> occupied (board s) r c)))"
proof -
  obtain s1 s where run: "initGame r0 r1 s0 = Inr s1" "run evs s1 = Some (Inr s)"
    and ok: "stateOk s"
    using assms by (rule reachable_stateOk)
  obtain p where p: "currentPiece s = Some p"
    using ok by (rule stateOk_piece)
  have "\<forall>(r, c) \<in> set (activeCells s).
                  0 \<le> c \<and> c < BOARD_WIDTH \<and> r < BOARD_HEIGHT \<and>
                  \<not> (0 \<le> r \<and> occupied (board s) r c)" if "gameRunning s"
  proof -
    have "placed s" using ok that by (simp add: stateOk_def)
    then have "fits (board s) (shape p) (currentX s) (currentY s)"
      using placed_fits [OF stateOk_len [OF ok] p] by simp
    then show ?thesis
      by (auto simp: activeCells_def p fits_def list_all_iff collides_def)
  qed
  then show ?thesis using run p by auto
qed

theorem active_piece_always_valid_witness:
  "(2::nat) < length PIECES \<and> (0::nat) < length PIECES \<and> list_all drawsOk demoEvents \<and>
   initGame 2 0 (initialState None False) = Inr demoStart \<and>
   run demoEvents demoStart = Some (Inr demoEnd) \<and>
   gameRunning demoEnd \<and> currentPiece demoEnd = Some (PIECES ! 0) \<and>
   activeCells demoEnd = [(0, 3), (0, 4), (0, 5), (0, 6)]"
proof -
  have d: "(2::nat) < length PIECES" "(0::nat) < length PIECES" "list_all drawsOk demoEvents"
    by code_simp+
  have i: "initGame 2 0 (initialState None False) = Inr demoStart" by code_simp
  have r: "run demoEvents demoStart = Some (Inr demoEnd)" by code_simp
  have e: "gameRunning demoEnd" "currentPiece demoEnd = Some (PIECES ! 0)"
    "activeCells demoEnd = [(0, 3), (0, 4), (0, 5), (0, 6)]"
    by code_simp+
  show ?thesis
    using active_piece_always_valid [OF d, of "initialState None False"] d i r e by blast
qed

text \<open>
  Claim C4. In every state that a started game reaches between two events, a rotation
  attempt and a move attempt return without raising. The rotation tries the rotated
  matrix at the kicks 0, -1, +1, -2, +2 in this order and commits the first at which
  \<open>isValidPosition\<close> succeeds, replacing the matrix and adding the kick to the origin
  column; when none succeeds the state is unchanged. A move to a valid position commits
  the new origin and returns true; a move to an invalid one returns false and leaves the
  state unchanged.
\<close>

theorem rotate_and_move_silent:
  assumes "r0 < length PIECES" and "r1 < length PIECES" and "list_all drawsOk evs"
  shows "\<exists>s1 s p rot.
           initGame r0 r1 s0 = Inr s1 \<and> run evs s1 = Some (Inr s) \<and>
           currentPiece s = Some p \<and> rotated (shape p) = Inr rot \<and>
           rotatePiece s =
             Inr (case find (\<lambda>kick. isValidPosition (board s) rot (currentX s + kick) (currentY s)
                                      = Inr True)
                            [0, - 1, 1, - 2, 2] of
                    None \<Rightarrow> s
                  | Some kick \<Rightarrow> s\<lparr>currentPiece := Some (p\<lparr>shape := rot\<rparr>),
                                     currentX := currentX s + kick\<rparr>) \<and>
           (\<forall>dx dy.
              movePiece dx dy s =
                Inr (if isValidPosition (board s) (shape p) (currentX s + dx) (currentY s + dy)
                          = Inr True
                     then (True, s\<lparr>currentX := currentX s + dx, currentY := currentY s + dy\<rparr>)
                     else (False, s)))"
proof -
  obtain s1 s where run: "initGame r0 r1 s0 = Inr s1" "run evs s1 = Some (Inr s)"
    and ok: "stateOk s"
    using assms by (rule reachable_stateOk)
  obtain p where p: "currentPiece s = Some p" "shapeOk (shape p)"
    using ok by (rule stateOk_piece)
  obtain rot where rot: "rotated (shape p) = Inr rot"
    using shapeOk_rotated [OF p(2)] by blast
  note len = stateOk_len [OF ok]
  have "rotatePiece s =
             Inr (case find (\<lambda>kick. isValidPosition (board s) rot (currentX s + kick) (currentY s)
                                      = Inr True)
                            [0, - 1, 1, - 2, 2] of
                    None \<Rightarrow> s
                  | Some kick \<Rightarrow> s\<lparr>currentPiece := Some (p\<lparr>shape := rot\<rparr>),
                                     currentX := currentX s + kick\<rparr>)"
    using rotatePiece_spec [OF len p(1) rot] p(1) rot
    by (simp add: kickChosen_def del: find.simps)
  then show ?thesis
    using run p(1) rot movePiece_spec [OF len p(1)] by blast
qed

theorem rotate_and_move_silent_witness:
  "(2::nat) < length PIECES \<and> (0::nat) < length PIECES \<and> list_all drawsOk wallEvents \<and>
   initGame 2 0 (initialState None False) = Inr demoStart \<and>
   run wallEvents demoStart = Some (Inr wallState) \<and>
   rotated [[1, 0], [1, 1], [1, 0]] = Inr [[1, 1, 1], [0, 1, 0]] \<and>
   isValidPosition (board wallState) [[1, 1, 1], [0, 1, 0]] 8 5 = Inr False \<and>
   rotatePiece wallState =
     Inr (wallState\<lparr>currentPiece := Some (kickPiece [[1, 1, 1], [0, 1, 0]]), currentX := 7\<rparr>) \<and>
   movePiece 1 0 wallState = Inr (False, wallState) \<and>
   movePiece (- 1) 0 wallState = Inr (True, wallState\<lparr>currentX := 7\<rparr>)"
proof -
  have d: "(2::nat) < length PIECES" "(0::nat) < length PIECES" "list_all drawsOk wallEvents"
    by code_simp+
  have i: "initGame 2 0 (initialState None False) = Inr demoStart" by code_simp
  have r: "run wallEvents demoStart = Some (Inr wallState)" by code_simp
  have e: "rotated [[1, 0], [1, 1], [1, 0]] = Inr [[1, 1, 1], [0, 1, 0]]"
    "isValidPosition (board wallState) [[1, 1, 1], [0, 1, 0]] 8 5 = Inr False"
    "rotatePiece wallState =
       Inr (wallState\<lparr>currentPiece := Some (kickPiece [[1, 1, 1], [0, 1, 0]]), currentX := 7\<rparr>)"
    "movePiece 1 0 wallState = Inr (False, wallState)"
    "movePiece (- 1) 0 wallState = Inr (True, wallState\<lparr>currentX := 7\<rparr>)"
    by code_simp+
  show ?thesis
    using rotate_and_move_silent [OF d, of "initialState None False"] d i r e by blast
qed

text \<open>
  Claim C5. On a board of \<open>BOARD_HEIGHT\<close> rows and with a piece index inside the
  catalogue, \<open>spawnPiece\<close> returns without raising. The piece is put at origin column
  \<open>floor((BOARD_WIDTH - matrixWidth) / 2)\<close> and origin row 0, and the call returns
  whether that position is valid. The board is the same before and after in either case;
  when the position is invalid the call returns false and the game is no longer running.
\<close>

theorem spawnPiece_game_over:
  assumes "int (length (board s)) = BOARD_HEIGHT"
    and "i = (if nextPieceIndex s = - 1 then int r0 else nextPieceIndex s)"
    and "0 \<le> i" and "i < int (length PIECES)"
  shows "\<exists>ok s'.
           spawnPiece r0 r1 s = Inr (ok, s') \<and>
           currentPiece s' = Some (PIECES ! nat i) \<and>
           currentX s' = (BOARD_WIDTH - int (length (hd (shape (PIECES ! nat i))))) div 2 \<and>
           currentY s' = 0 \<and>
           board s' = board s \<and>
           (ok \<longleftrightarrow> isValidPosition (board s) (shape (PIECES ! nat i)) (currentX s') 0 = Inr True) \<and>
           (gameRunning s' \<longleftrightarrow> ok \<and> gameRunning s)"
  unfolding spawnPiece_spec [OF assms]
  by (simp add: gameOver_def)

theorem spawnPiece_game_over_witness:
  "int (length (board blockedState)) = BOARD_HEIGHT \<and>
   (2::int) = (if nextPieceIndex blockedState = - 1 then int 0 else nextPieceIndex blockedState) \<and>
   (0::int) \<le> 2 \<and> (2::int) < int (length PIECES) \<and>
   isValidPosition (board blockedState) (shape (PIECES ! 2)) 3 0 = Inr False \<and>
   spawnPiece 0 5 blockedState =
     Inr (False, blockedState\<lparr>nextPieceIndex := 5, currentPiece := Some (PIECES ! 2),
                              currentX := 3, currentY := 0, gameRunning := False\<rparr>)"
proof -
  have h: "int (length (board blockedState)) = BOARD_HEIGHT"
    "(2::int) = (if nextPieceIndex blockedState = - 1 then int 0 else nextPieceIndex blockedState)"
    "(0::int) \<le> 2" "(2::int) < int (length PIECES)"
    by code_simp+
  have e: "isValidPosition (board blockedState) (shape (PIECES ! 2)) 3 0 = Inr False"
    "spawnPiece 0 5 blockedState =
       Inr (False, blockedState\<lparr>nextPieceIndex := 5, currentPiece := Some (PIECES ! 2),
                                currentX := 3, currentY := 0, gameRunning := False\<rparr>)"
    by code_simp+
  show ?thesis
    using spawnPiece_game_over [OF h, of 5] h e by blast
qed

lemma fold_applyScore:
  assumes "level (s :: state) = lines s div 10 + 1"
  shows "lines (fold applyScore ks s) = lines s + int (sum_list ks) \<and>
         level (fold applyScore ks s) = (lines s + int (sum_list ks)) div 10 + 1"
  using assms
proof (induction ks arbitrary: s)
  case Nil
  then show ?case by simp
next
  case (Cons k ks)
  have "level (applyScore k s) = lines (applyScore k s) div 10 + 1"
    using Cons.prems by (rule applyScore_level)
  from Cons.IH [OF this] show ?case by (simp add: add.assoc)
qed

lemma tryKicks_level:
  "tryKicks s p rot ks = Inr s' \<Longrightarrow> lines s' = lines s \<and> level s' = level s"
  by (induction ks) (auto split: sum.splits if_splits)

lemma operations_keep_level:
  assumes "levelOk s"
  shows "movePiece dx dy s = Inr (ok, s') \<Longrightarrow> levelOk s'"
    and "rotatePiece s = Inr s' \<Longrightarrow> levelOk s'"
    and "lockPiece s = Inr s' \<Longrightarrow> levelOk s'"
    and "clearLines s = Inr (v, s') \<Longrightarrow> levelOk s'"
    and "spawnPiece r0 r1 s = Inr (ok, s') \<Longrightarrow> levelOk s'"
    and "levelOk (gameOver s)"
proof -
  show "movePiece dx dy s = Inr (ok, s') \<Longrightarrow> levelOk s'"
    using assms
    by (auto simp: movePiece_def levelOk_def split: option.splits sum.splits if_splits)
  show "rotatePiece s = Inr s' \<Longrightarrow> levelOk s'"
    using assms
    by (cases "currentPiece s"; cases "rotated (shape (the (currentPiece s)))")
       (auto simp: rotatePiece_def levelOk_def dest: tryKicks_level)
  show "lockPiece s = Inr s' \<Longrightarrow> levelOk s'"
    using assms
    by (cases "currentPiece s";
        cases "lockRows (the (currentPiece s)) (currentX s) (currentY s)
                 (shape (the (currentPiece s))) 0 (board s)")
       (auto simp: lockPiece_def levelOk_def)
  show "clearLines s = Inr (v, s') \<Longrightarrow> levelOk s'"
    using assms applyScore_level [of "s\<lparr>board := b\<rparr>" for b]
    by (cases "clearLoop (board s) (BOARD_HEIGHT - 1) 0")
       (auto simp: clearLines_def levelOk_def)
  show "levelOk (gameOver s)"
    using assms by (simp add: gameOver_def levelOk_def)
  then show "spawnPiece r0 r1 s = Inr (ok, s') \<Longrightarrow> levelOk s'"
    using assms
    by (auto simp: spawnPiece_def Let_def levelOk_def gameOver_def
             split: list.splits sum.splits if_splits)
qed

text \<open>
  Claim C7. The initial state has \<open>lines = 0\<close> and \<open>level = 1\<close>, and so has the state
  that \<open>initGame\<close> sets up. In every state that a started game reaches, the level is
  \<open>floor(lines / 10) + 1\<close>. Consequently, applying the scoring block of the line clear
  to any sequence of cleared-row counts, from a state with \<open>lines = 0\<close> and \<open>level = 1\<close>,
  ends with \<open>lines\<close> equal to their total \<open>L\<close> and the level equal to
  \<open>floor(L / 10) + 1\<close>, however the total is split into clears. The single operations
  keep the relation as well: a move, a rotation, a lock, a line clear and a spawn that
  start in a state where it holds end in one where it holds.
\<close>

theorem level_is_function_of_lines:
  assumes "r0 < length PIECES" and "r1 < length PIECES" and "list_all drawsOk evs"
  shows "lines (initialState file fails) = 0 \<and> level (initialState file fails) = 1 \<and>
         (\<exists>s1 s. initGame r0 r1 s0 = Inr s1 \<and> lines s1 = 0 \<and> level s1 = 1 \<and>
                  run evs s1 = Some (Inr s) \<and> level s = lines s div 10 + 1) \<and>
         (\<forall>ks (s :: state). lines s = 0 \<and> level s = 1 \<longrightarrow>
                  lines (fold applyScore ks s) = int (sum_list ks) \<and>
                  level (fold applyScore ks s) = int (sum_list ks) div 10 + 1) \<and>
         (\<forall>s. levelOk s \<longrightarrow>
                (\<forall>dx dy ok s'. movePiece dx dy s = Inr (ok, s') \<longrightarrow> levelOk s') \<and>
                (\<forall>s'. rotatePiece s = Inr s' \<longrightarrow> levelOk s') \<and>
                (\<forall>s'. lockPiece s = Inr s' \<longrightarrow> levelOk s') \<and>
                (\<forall>v s'. clearLines s = Inr (v, s') \<longrightarrow> levelOk s') \<and>
                (\<forall>d0 d1 ok s'. spawnPiece d0 d1 s = Inr (ok, s') \<longrightarrow> levelOk s'))"
proof (intro conjI allI impI)
  show "lines (initialState file fails) = 0" "level (initialState file fails) = 1"
    by (simp_all add: initialState_def)
  obtain s1 s where run: "initGame r0 r1 s0 = Inr s1" "run evs s1 = Some (Inr s)"
    and ok: "stateOk s"
    using assms by (rule reachable_stateOk)
  let ?s = "s0\<lparr>board := initBoard, score := Num 0, lines := 0, level := 1,
               nextPieceIndex := - 1, gameRunning := True, gamePaused := False\<rparr>"
  have len: "int (length (board ?s)) = BOARD_HEIGHT"
    by (simp add: initBoard_def BOARD_HEIGHT_def)
  have "lines s1 = 0 \<and> level s1 = 1"
    using run(1) assms(1)
    unfolding initGame_def spawnPiece_spec [OF len, of "int r0" r0 r1, simplified, OF assms(1)]
    by (auto simp: gameOver_def split: if_splits)
  then show "\<exists>s1 s. initGame r0 r1 s0 = Inr s1 \<and> lines s1 = 0 \<and> level s1 = 1 \<and>
                  run evs s1 = Some (Inr s) \<and> level s = lines s div 10 + 1"
    using run ok by (auto simp: stateOk_def)
next
  fix ks and s :: state assume "lines s = 0 \<and> level s = 1"
  then show "lines (fold applyScore ks s) = int (sum_list ks)"
    "level (fold applyScore ks s) = int (sum_list ks) div 10 + 1"
    using fold_applyScore [of s ks] by simp_all
next
  fix s dx dy ok s' assume "levelOk s" "movePiece dx dy s = Inr (ok, s')"
  then show "levelOk s'" by (rule operations_keep_level)
next
  fix s s' assume "levelOk s" "rotatePiece s = Inr s'"
  then show "levelOk s'" by (rule operations_keep_level)
next
  fix s s' assume "levelOk s" "lockPiece s = Inr s'"
  then show "levelOk s'" by (rule operations_keep_level)
next
  fix s v s' assume "levelOk s" "clearLines s = Inr (v, s')"
  then show "levelOk s'" by (rule operations_keep_level)
next
  fix s d0 d1 ok s' assume "levelOk s" "spawnPiece d0 d1 s = Inr (ok, s')"
  then show "levelOk s'" by (rule operations_keep_level)
qed

theorem level_is_function_of_lines_witness:
  "(2::nat) < length PIECES \<and> (0::nat) < length PIECES \<and> list_all drawsOk demoEvents \<and>
   initGame 2 0 (initialState None False) = Inr demoStart \<and>
   run demoEvents demoStart = Some (Inr demoEnd) \<and>
   lines demoEnd = 0 \<and> level demoEnd = 1 \<and>
   lines demoStart = 0 \<and> level demoStart = 1 \<and> levelOk demoStart \<and>
   movePiece 0 1 demoStart = Inr (True, demoStart\<lparr>currentY := 1\<rparr>) \<and>
   levelOk (demoStart\<lparr>currentY := 1\<rparr>) \<and>
   lines (fold applyScore [4, 4, 4] demoStart) = 12 \<and>
   level (fold applyScore [4, 4, 4] demoStart) = 2 \<and>
   score (fold applyScore [4, 4, 4] demoStart) = Num 3000 \<and>
   lines (fold applyScore [1, 1, 1, 1, 1, 1, 1, 1, 1, 1, 1, 1] demoStart) = 12 \<and>
   level (fold applyScore [1, 1, 1, 1, 1, 1, 1, 1, 1, 1, 1, 1] demoStart) = 2 \<and>
   score (fold applyScore [1, 1, 1, 1, 1, 1, 1, 1, 1, 1, 1, 1] demoStart) = Num 1400"
proof -
  have d: "(2::nat) < length PIECES" "(0::nat) < length PIECES" "list_all drawsOk demoEvents"
    by code_simp+
  have e: "initGame 2 0 (initialState None False) = Inr demoStart"
   "run demoEvents demoStart = Some (Inr demoEnd)"
   "lines demoEnd = 0" "level demoEnd = 1"
   "lines demoStart = 0" "level demoStart = 1" "levelOk demoStart"
   "movePiece 0 1 demoStart = Inr (True, demoStart\<lparr>currentY := 1\<rparr>)"
   "levelOk (demoStart\<lparr>currentY := 1\<rparr>)"
   "lines (fold applyScore [4, 4, 4] demoStart) = 12"
   "level (fold applyScore [4, 4, 4] demoStart) = 2"
   "score (fold applyScore [4, 4, 4] demoStart) = Num 3000"
   "lines (fold applyScore [1, 1, 1, 1, 1, 1, 1, 1, 1, 1, 1, 1] demoStart) = 12"
   "level (fold applyScore [1, 1, 1, 1, 1, 1, 1, 1, 1, 1, 1, 1] demoStart) = 2"
   "score (fold applyScore [1, 1, 1, 1, 1, 1, 1, 1, 1, 1, 1, 1] demoStart) = Num 1400"
    by code_simp+
  show ?thesis
    using level_is_function_of_lines [OF d, of None False "initialState None False"] d e by blast
qed

lemma dropWithin_mono:
  "dropWithin n s = Some r \<Longrightarrow> n \<le> m \<Longrightarrow> dropWithin m s = Some r"
proof (induction n arbitrary: m s)
  case 0
  then show ?case by simp
next
  case (Suc n)
  then obtain m' where m: "m = Suc m'" "n \<le> m'"
    by (cases m) auto
  show ?case
  proof (cases "movePiece 0 1 s")
    case (Inl e)
    then show ?thesis using Suc.prems(1) m by simp
  next
    case (Inr q)
    show ?thesis
    proof (cases "fst q")
      case True
      then have "dropWithin n (snd q) = Some r" using Suc.prems(1) Inr by simp
      then have "dropWithin m' (snd q) = Some r" using m(2) by (rule Suc.IH)
      then show ?thesis using Inr True m(1) by simp
    next
      case False
      then show ?thesis using Suc.prems(1) Inr m by simp
    qed
  qed
qed

lemma length_fullRows: "length (fullRows b) = length (filter rowFull b)"
proof -
  have "filter rowFull (map ((!) b) [0..<length b]) =
          map ((!) b) (filter (rowFull \<circ> (!) b) [0..<length b])"
    by (rule filter_map)
  then have "length (filter rowFull (map ((!) b) [0..<length b])) = length (fullRows b)"
    by (simp add: fullRows_def comp_def)
  then show ?thesis by (simp add: map_nth)
qed

text \<open>
  Claim C9, as the code has it. Whenever a piece is locked in a started game, at its
  current row (soft drop, gravity tick) or at a lower valid row (hard drop), the
  \<open>clearLines\<close> call that follows returns \<open>undefined\<close>; the number of rows it removes,
  which it adds to \<open>lines\<close>, is the number of full rows of the board and lies between 0
  and 4.
\<close>

theorem lines_cleared_after_lock:
  assumes "r0 < length PIECES" and "r1 < length PIECES" and "list_all drawsOk evs"
  shows "\<exists>s1 s. initGame r0 r1 s0 = Inr s1 \<and> run evs s1 = Some (Inr s) \<and>
           (\<forall>y. currentY s \<le> y \<and> placed (s\<lparr>currentY := y\<rparr>) \<longrightarrow>
              (\<exists>s2 s3. lockPiece (s\<lparr>currentY := y\<rparr>) = Inr s2 \<and>
                        clearLines s2 = Inr (Undefined, s3) \<and>
                        lines s3 = lines s + int (length (fullRows (board s2))) \<and>
                        0 \<le> length (fullRows (board s2)) \<and>
                        length (fullRows (board s2)) \<le> 4))"
proof -
  obtain s1 s where run: "initGame r0 r1 s0 = Inr s1" "run evs s1 = Some (Inr s)"
    and ok: "stateOk s"
    using assms by (rule reachable_stateOk)
  have "\<exists>s2 s3. lockPiece (s\<lparr>currentY := y\<rparr>) = Inr s2 \<and>
                        clearLines s2 = Inr (Undefined, s3) \<and>
                        lines s3 = lines s + int (length (fullRows (board s2))) \<and>
                        0 \<le> length (fullRows (board s2)) \<and>
                        length (fullRows (board s2)) \<le> 4"
    if y: "currentY s \<le> y \<and> placed (s\<lparr>currentY := y\<rparr>)" for y
  proof -
    have ok': "stateOk (s\<lparr>currentY := y\<rparr>)"
      using ok y by (auto simp: stateOk_def split: option.splits)
    obtain b' where b': "lockPiece (s\<lparr>currentY := y\<rparr>) = Inr (s\<lparr>currentY := y, board := b'\<rparr>)"
        "length (filter rowFull b') \<le> 4"
        "clearLines (s\<lparr>currentY := y, board := b'\<rparr>) =
                Inr (Undefined, applyScore (length (filter rowFull b'))
                       (s\<lparr>currentY := y,
                          board := replicate (length (filter rowFull b')) emptyRow @
                                     filter (\<lambda>r. \<not> rowFull r) b'\<rparr>))"
      using lock_then_clear [OF ok'] y by auto
    show ?thesis
      using b' by (simp add: length_fullRows)
  qed
  then show ?thesis using run by blast
qed

theorem lines_cleared_after_lock_witness:
  "(2::nat) < length PIECES \<and> (0::nat) < length PIECES \<and> list_all drawsOk (take 2 demoEvents) \<and>
   initGame 2 0 (initialState None False) = Inr demoStart \<and>
   run (take 2 demoEvents) demoStart = Some (Inr demoTurned) \<and>
   currentY demoTurned \<le> 17 \<and> placed (demoTurned\<lparr>currentY := 17\<rparr>) \<and>
   lockPiece (demoTurned\<lparr>currentY := 17\<rparr>) = Inr (demoTurned\<lparr>currentY := 17, board := demoBoard\<rparr>) \<and>
   clearLines (demoTurned\<lparr>currentY := 17, board := demoBoard\<rparr>) =
     Inr (Undefined, demoTurned\<lparr>currentY := 17, board := demoBoard\<rparr>) \<and>
   fullRows demoBoard = []"
proof -
  have d: "(2::nat) < length PIECES" "(0::nat) < length PIECES"
    "list_all drawsOk (take 2 demoEvents)"
    by code_simp+
  have e: "initGame 2 0 (initialState None False) = Inr demoStart"
   "run (take 2 demoEvents) demoStart = Some (Inr demoTurned)"
   "currentY demoTurned \<le> 17" "placed (demoTurned\<lparr>currentY := 17\<rparr>)"
   "lockPiece (demoTurned\<lparr>currentY := 17\<rparr>) = Inr (demoTurned\<lparr>currentY := 17, board := demoBoard\<rparr>)"
   "clearLines (demoTurned\<lparr>currentY := 17, board := demoBoard\<rparr>) =
     Inr (Undefined, demoTurned\<lparr>currentY := 17, board := demoBoard\<rparr>)"
   "fullRows demoBoard = []"
    by code_simp+
  show ?thesis
    using lines_cleared_after_lock [OF d, of "initialState None False"] d e by blast
qed

text \<open>The claim as stated fails: after the lock of the dropped T piece the line clear
  removes no row, and the call evaluates to \<open>undefined\<close>, not to the number 0.\<close>

theorem clearLines_returns_undefined:
  "run (take 2 demoEvents) demoStart = Some (Inr demoTurned) \<and>
   dropLoop demoTurned = Some (Inr (demoTurned\<lparr>currentY := 17\<rparr>)) \<and>
   lockPiece (demoTurned\<lparr>currentY := 17\<rparr>) = Inr (demoTurned\<lparr>currentY := 17, board := demoBoard\<rparr>) \<and>
   clearLines (demoTurned\<lparr>currentY := 17, board := demoBoard\<rparr>) =
     Inr (Undefined, demoTurned\<lparr>currentY := 17, board := demoBoard\<rparr>) \<and>
   clearLines (demoTurned\<lparr>currentY := 17, board := demoBoard\<rparr>) \<noteq>
     Inr (Number 0, demoTurned\<lparr>currentY := 17, board := demoBoard\<rparr>)"
  by code_simp

text \<open>
  Claim C10. In every state that a started game reaches and in which the active piece is
  at a valid position, the descent loop of the hard drop ends, after at most
  \<open>BOARD_HEIGHT\<close> evaluations of its condition: a successful \<open>movePiece(0, 1)\<close> raises the
  origin row by one, the origin row stays below \<open>BOARD_HEIGHT\<close>, and the loop leaves the
  piece at a valid row from which the next downward move fails. The piece is then locked
  without an error and the hard drop returns.
\<close>

theorem hardDrop_terminates:
  assumes "r0 < length PIECES" and "r1 < length PIECES" and "list_all drawsOk evs"
  shows "\<exists>s1 s. initGame r0 r1 s0 = Inr s1 \<and> run evs s1 = Some (Inr s) \<and>
           (placed s \<longrightarrow>
              (\<forall>s'. movePiece 0 1 s = Inr (True, s') \<longrightarrow> currentY s' = currentY s + 1) \<and>
              (\<exists>y s2. dropLoop s = Some (Inr (s\<lparr>currentY := y\<rparr>)) \<and>
                       dropWithin (nat BOARD_HEIGHT) s = Some (Inr (s\<lparr>currentY := y\<rparr>)) \<and>
                       currentY s \<le> y \<and> y < BOARD_HEIGHT \<and>
                       placed (s\<lparr>currentY := y\<rparr>) \<and>
                       movePiece 0 1 (s\<lparr>currentY := y\<rparr>) = Inr (False, s\<lparr>currentY := y\<rparr>) \<and>
                       lockPiece (s\<lparr>currentY := y\<rparr>) = Inr s2) \<and>
              (\<forall>d0 d1. d1 < length PIECES \<longrightarrow> (\<exists>s3. hardDrop d0 d1 s = Some (Inr s3))))"
proof -
  obtain s1 s where run: "initGame r0 r1 s0 = Inr s1" "run evs s1 = Some (Inr s)"
    and ok: "stateOk s"
    using assms by (rule reachable_stateOk)
  obtain p where p: "currentPiece s = Some p" "shapeOk (shape p)"
    using ok by (rule stateOk_piece)
  note len = stateOk_len [OF ok]
  have c: "cells (shape p) \<noteq> []" using p(2) by (simp add: shapeOk_def)
  have y0: "0 \<le> currentY s" using ok by (simp add: stateOk_def)
  have "(\<forall>s'. movePiece 0 1 s = Inr (True, s') \<longrightarrow> currentY s' = currentY s + 1) \<and>
              (\<exists>y s2. dropLoop s = Some (Inr (s\<lparr>currentY := y\<rparr>)) \<and>
                       dropWithin (nat BOARD_HEIGHT) s = Some (Inr (s\<lparr>currentY := y\<rparr>)) \<and>
                       currentY s \<le> y \<and> y < BOARD_HEIGHT \<and>
                       placed (s\<lparr>currentY := y\<rparr>) \<and>
                       movePiece 0 1 (s\<lparr>currentY := y\<rparr>) = Inr (False, s\<lparr>currentY := y\<rparr>) \<and>
                       lockPiece (s\<lparr>currentY := y\<rparr>) = Inr s2) \<and>
              (\<forall>d0 d1. d1 < length PIECES \<longrightarrow> (\<exists>s3. hardDrop d0 d1 s = Some (Inr s3)))"
    if pl: "placed s"
  proof (intro conjI allI impI)
    fix s' assume "movePiece 0 1 s = Inr (True, s')"
    then show "currentY s' = currentY s + 1"
      unfolding movePiece_spec [OF len p(1)] by (auto split: if_splits)
  next
    obtain y where y: "dropLoop s = Some (Inr (s\<lparr>currentY := y\<rparr>))"
        "dropWithin (nat (BOARD_HEIGHT - currentY s)) s = Some (Inr (s\<lparr>currentY := y\<rparr>))"
        "currentY s \<le> y" "y < BOARD_HEIGHT" "placed (s\<lparr>currentY := y\<rparr>)"
        "isValidPosition (board s) (shape p) (currentX s) (y + 1) = Inr False"
      using dropLoop_spec [OF len p(1) c pl refl] by blast
    have w: "dropWithin (nat BOARD_HEIGHT) s = Some (Inr (s\<lparr>currentY := y\<rparr>))"
      using y(2) by (rule dropWithin_mono) (use y0 in simp)
    have ok': "stateOk (s\<lparr>currentY := y\<rparr>)"
      using ok y(3,5) by (auto simp: stateOk_def split: option.splits)
    have mv: "movePiece 0 1 (s\<lparr>currentY := y\<rparr>) = Inr (False, s\<lparr>currentY := y\<rparr>)"
      using movePiece_spec [of "s\<lparr>currentY := y\<rparr>" p 0 1] len p(1) y(6) by simp
    obtain s2 where "lockPiece (s\<lparr>currentY := y\<rparr>) = Inr s2"
      using lock_then_clear [OF ok' y(5)] by blast
    then show "\<exists>y s2. dropLoop s = Some (Inr (s\<lparr>currentY := y\<rparr>)) \<and>
                       dropWithin (nat BOARD_HEIGHT) s = Some (Inr (s\<lparr>currentY := y\<rparr>)) \<and>
                       currentY s \<le> y \<and> y < BOARD_HEIGHT \<and>
                       placed (s\<lparr>currentY := y\<rparr>) \<and>
                       movePiece 0 1 (s\<lparr>currentY := y\<rparr>) = Inr (False, s\<lparr>currentY := y\<rparr>) \<and>
                       lockPiece (s\<lparr>currentY := y\<rparr>) = Inr s2"
      using y(1,3,4,5) w mv by blast
  next
    fix d0 d1 :: nat assume "d1 < length PIECES"
    then show "\<exists>s3. hardDrop d0 d1 s = Some (Inr s3)"
      using hardDrop_stateOk [OF ok pl, of d1 d0] by blast
  qed
  then show ?thesis using run by blast
qed

theorem hardDrop_terminates_witness:
  "(2::nat) < length PIECES \<and> (0::nat) < length PIECES \<and> list_all drawsOk (take 2 demoEvents) \<and>
   initGame 2 0 (initialState None False) = Inr demoStart \<and>
   run (take 2 demoEvents) demoStart = Some (Inr demoTurned) \<and>
   placed demoTurned \<and>
   dropLoop demoTurned = Some (Inr (demoTurned\<lparr>currentY := 17\<rparr>)) \<and>
   dropWithin 18 demoTurned = Some (Inr (demoTurned\<lparr>currentY := 17\<rparr>)) \<and>
   dropWithin 17 demoTurned = None \<and>
   movePiece 0 1 (demoTurned\<lparr>currentY := 17\<rparr>) = Inr (False, demoTurned\<lparr>currentY := 17\<rparr>) \<and>
   hardDrop 1 1 demoTurned = Some (Inr demoEnd)"
proof -
  have d: "(2::nat) < length PIECES" "(0::nat) < length PIECES"
    "list_all drawsOk (take 2 demoEvents)"
    by code_simp+
  have e: "initGame 2 0 (initialState None False) = Inr demoStart"
   "run (take 2 demoEvents) demoStart = Some (Inr demoTurned)"
   "placed demoTurned"
   "dropLoop demoTurned = Some (Inr (demoTurned\<lparr>currentY := 17\<rparr>))"
   "dropWithin 18 demoTurned = Some (Inr (demoTurned\<lparr>currentY := 17\<rparr>))"
   "dropWithin 17 demoTurned = None"
   "movePiece 0 1 (demoTurned\<lparr>currentY := 17\<rparr>) = Inr (False, demoTurned\<lparr>currentY := 17\<rparr>)"
   "hardDrop 1 1 demoTurned = Some (Inr demoEnd)"
    by code_simp+
  show ?thesis
    using hardDrop_terminates [OF d, of "initialState None False"] d e by blast
qed

section \<open>The high score across sessions\<close>

text \<open>
  Claim C8, evaluated on the code. The first game ends with 300 points and the file holds
  300. The second game of the same process ends with 100 points; \<open>saveHighScore\<close>
  compares them with the \<open>highScore\<close> variable, which was loaded at start-up and is
  still 0, and overwrites the stored 300 with 100.
\<close>

theorem lower_score_overwrites_high_score:
  "outcome (process None []) = Some (True, Num 0, 0, None) \<and>
   outcome (process None sessionOne) = Some (False, Num 300, 0, Some ''300'') \<and>
   outcome (process None (sessionOne @ [Keypress ''r'' 0 0])) = Some (True, Num 0, 0, Some ''300'') \<and>
   outcome (process None (sessionOne @ [Keypress ''r'' 0 0] @ sessionTwo))
     = Some (False, Num 100, 0, Some ''100'')"
  by code_simp

end
